theory Spec2Isabelle
  imports Complex_Main "HOL-Library.Log_Nat"
begin

section \<open>Observable effects of the browser-side controller\<close>

text \<open>
  The handlers of \<^verbatim>\<open>configeditor.js\<close> and \<^verbatim>\<open>samplemanager.js\<close> are asynchronous
  functions whose results are their effects: requests to the backend, dialogs, log lines, calls
  of the rendering functions. Each handler is modelled as a function from its inputs and from
  the answers of its environment (the user's answer to \<^verbatim>\<open>confirm\<close>, the outcome of each
  \<^verbatim>\<open>fetch\<close>) to the list of effects in the order in which the code performs them.
  JavaScript strings are HOL strings.
\<close>

datatype formval =
    Text string       \<comment> \<open>a string field of a \<^verbatim>\<open>FormData\<close>\<close>
  | FileBlob string   \<comment> \<open>a \<^verbatim>\<open>File\<close> object, identified by its name\<close>

datatype body =
    NoBody
  | FormData "(string \<times> formval) list"   \<comment> \<open>the fields in the order of the \<^verbatim>\<open>append\<close> calls\<close>
  | Json "(string \<times> string) list"         \<comment> \<open>\<^verbatim>\<open>JSON.stringify\<close> of an object of string fields\<close>

datatype request = Request (meth: string) (url: string) (reqbody: body)

datatype callback = FetchOpzSamples | FetchOp1Samples | LoadAllConfigs

datatype action =
    PreventDefault            \<comment> \<open>\<^verbatim>\<open>e.preventDefault()\<close>\<close>
  | ClassRemove string        \<comment> \<open>\<^verbatim>\<open>classList.remove\<close> on the handler's own element\<close>
  | Fetch request
  | Confirm string
  | Alert string
  | ConsoleError string       \<comment> \<open>the first argument of \<^verbatim>\<open>console.error\<close>\<close>
  | ConsoleWarn string
  | Sleep nat                 \<comment> \<open>\<^verbatim>\<open>await new Promise(r => setTimeout(r, delay))\<close>\<close>
  | Call callback             \<comment> \<open>\<^verbatim>\<open>await\<close> of a rendering function\<close>
  | Uncaught                  \<comment> \<open>an exception leaves the handler\<close>

text \<open>
  The outcome of one \<^verbatim>\<open>fetch\<close>: the promise rejects (transport failure, with the
  message of the error), or a response arrives with its \<^verbatim>\<open>ok\<close> flag and a body. A body is
  either not JSON (\<^verbatim>\<open>response.json()\<close> rejects with a message) or an object, of which the
  handlers read the fields \<^verbatim>\<open>error\<close> and \<^verbatim>\<open>errors\<close>.
\<close>

datatype reply_body =
    NotJson string
  | JsonObj (error_field: "string option") (errors_field: "string list")

datatype fetch_result =
    Rejected string
  | Response bool reply_body

definition succeeded :: "fetch_result \<Rightarrow> bool" where
  \<comment> \<open>the fetch resolved and \<^verbatim>\<open>response.ok\<close> holds\<close>
  "succeeded r = (case r of Rejected msg \<Rightarrow> False | Response ok b \<Rightarrow> ok)"

fun is_request :: "action \<Rightarrow> bool" where
  "is_request (Fetch r) = True"
| "is_request a = False"

fun is_refresh :: "action \<Rightarrow> bool" where
  "is_refresh (Call c) = True"
| "is_refresh a = False"

fun touches_dom :: "action \<Rightarrow> bool" where
  "touches_dom (ClassRemove c) = True"
| "touches_dom (Call c) = True"
| "touches_dom a = False"

definition or_else :: "string option \<Rightarrow> string \<Rightarrow> string" where
  \<comment> \<open>\<^verbatim>\<open>value || fallback\<close>: a missing or empty string is falsy\<close>
  "or_else v fallback = (case v of None \<Rightarrow> fallback | Some s \<Rightarrow> if s = [] then fallback else s)"

subsection \<open>Numbers to decimal strings\<close>

definition digit_char :: "nat \<Rightarrow> char" where
  "digit_char d = char_of (48 + d)"

fun string_of_nat :: "nat \<Rightarrow> string" where
  "string_of_nat n =
     (if n < 10 then [digit_char n] else string_of_nat (n div 10) @ [digit_char (n mod 10)])"

declare string_of_nat.simps [simp del]

section \<open>JavaScript numbers\<close>

text \<open>
  A JavaScript number is an IEEE 754 binary64 value. A finite value is carried as the rational
  it denotes; the two infinities and NaN are values of their own. The sign of a zero is not
  tracked: the zeros of this program come from integers of the snapshot, which are positive
  zeros, and no operation below divides by a computed zero.
\<close>

datatype jsnum = Fin rat | PosInf | NegInf | NaN

definition ilog2 :: "rat \<Rightarrow> int" where
  \<comment> \<open>for \<open>0 < r\<close>, the exponent \<open>k\<close> with \<open>2 powi k \<le> r < 2 powi (k + 1)\<close>\<close>
  "ilog2 r = (let (p, q) = quotient_of r; d = bitlen p - bitlen q
              in if 2 powi d \<le> r then d else d - 1)"

definition round_half_even :: "rat \<Rightarrow> int" where
  "round_half_even q =
     (let f = \<lfloor>q\<rfloor>; d = q - of_int f
      in if d < 1 / 2 then f else if 1 / 2 < d then f + 1 else if even f then f else f + 1)"

text \<open>
  Rounding of a positive real to binary64, to nearest with ties to even: 53 significant bits,
  the unit in the last place never below \<open>2 powi - 1074\<close> (subnormal numbers), and a result
  of \<open>2 ^ 1024\<close> or more is infinite.
\<close>

definition round_pos :: "rat \<Rightarrow> jsnum" where
  "round_pos r =
     (let e = max (ilog2 r - 52) (- 1074);
          v = of_int (round_half_even (r / 2 powi e)) * 2 powi e
      in if of_int (2 ^ 1024) \<le> v then PosInf else Fin v)"

fun js_neg :: "jsnum \<Rightarrow> jsnum" where
  "js_neg (Fin a) = Fin (- a)"
| "js_neg PosInf = NegInf"
| "js_neg NegInf = PosInf"
| "js_neg NaN = NaN"

definition to_double :: "rat \<Rightarrow> jsnum" where
  "to_double r =
     (if r = 0 then Fin 0 else if 0 < r then round_pos r else js_neg (round_pos (- r)))"

fun js_div :: "jsnum \<Rightarrow> jsnum \<Rightarrow> jsnum" where
  "js_div (Fin a) (Fin b) =
     (if b = 0 then (if a = 0 then NaN else if 0 < a then PosInf else NegInf)
      else to_double (a / b))"
| "js_div NaN y = NaN"
| "js_div x NaN = NaN"
| "js_div (Fin a) y = Fin 0"
| "js_div PosInf (Fin b) = (if 0 \<le> b then PosInf else NegInf)"
| "js_div NegInf (Fin b) = (if 0 \<le> b then NegInf else PosInf)"
| "js_div x y = NaN"

fun js_mul :: "jsnum \<Rightarrow> jsnum \<Rightarrow> jsnum" where
  "js_mul (Fin a) (Fin b) = to_double (a * b)"
| "js_mul NaN y = NaN"
| "js_mul x NaN = NaN"
| "js_mul (Fin a) y = (if a = 0 then NaN else if 0 < a then y else js_neg y)"
| "js_mul x (Fin b) = (if b = 0 then NaN else if 0 < b then x else js_neg x)"
| "js_mul PosInf y = y"
| "js_mul NegInf y = js_neg y"

fun js_sub :: "jsnum \<Rightarrow> jsnum \<Rightarrow> jsnum" where
  "js_sub (Fin a) (Fin b) = to_double (a - b)"
| "js_sub NaN y = NaN"
| "js_sub x NaN = NaN"
| "js_sub (Fin a) y = js_neg y"
| "js_sub x (Fin b) = x"
| "js_sub PosInf NegInf = PosInf"
| "js_sub NegInf PosInf = NegInf"
| "js_sub x y = NaN"

fun js_ge :: "jsnum \<Rightarrow> jsnum \<Rightarrow> bool" where
  "js_ge (Fin a) (Fin b) = (b \<le> a)"
| "js_ge NaN y = False"
| "js_ge x NaN = False"
| "js_ge PosInf y = True"
| "js_ge x NegInf = True"
| "js_ge x y = False"

definition num :: "int \<Rightarrow> jsnum" where
  \<comment> \<open>the number that \<^verbatim>\<open>JSON.parse\<close> makes of an integer literal\<close>
  "num n = to_double (of_int n)"

subsection \<open>\<^verbatim>\<open>toFixed(1)\<close> and \<^verbatim>\<open>parseFloat\<close>\<close>

text \<open>
  \<^verbatim>\<open>Number.prototype.toFixed\<close> with one fraction digit (ECMA-262): the integer \<open>n\<close> for which
  \<open>n / 10\<close> is nearest to the exact value of the number, the larger one when two are equally
  near, written with a point before its last digit; the sign is written when the number is
  negative. From \<open>10 ^ 21\<close> on the method returns \<^verbatim>\<open>Number::toString\<close> with an exponent
  instead, which is not modelled: the byte and kilobyte counts of this program are integers
  below \<open>2 ^ 53\<close>, and every number it formats stays below \<open>2 ^ 60\<close>.
\<close>

definition toFixed1 :: "jsnum \<Rightarrow> string" where
  "toFixed1 x =
     (case x of
        NaN \<Rightarrow> ''NaN''
      | PosInf \<Rightarrow> ''Infinity''
      | NegInf \<Rightarrow> ''-Infinity''
      | Fin r \<Rightarrow>
          (let n = nat \<lfloor>\<bar>r\<bar> * 10 + 1 / 2\<rfloor>
           in (if r < 0 then ''-'' else []) @
              string_of_nat (n div 10) @ ''.'' @ [digit_char (n mod 10)]))"

definition is_digit :: "char \<Rightarrow> bool" where
  "is_digit c = (48 \<le> (of_char c :: nat) \<and> (of_char c :: nat) \<le> 57)"

definition digit_val :: "char \<Rightarrow> nat" where
  "digit_val c = of_char c - 48"

definition nat_of_digits :: "string \<Rightarrow> nat" where
  "nat_of_digits s = foldl (\<lambda>a c. 10 * a + digit_val c) 0 s"

definition is_space :: "char \<Rightarrow> bool" where
  "is_space c =
     (c \<in> set [CHR 0x20, CHR 0x09, CHR 0x0A, CHR 0x0B, CHR 0x0C, CHR 0x0D, CHR 0xA0])"

text \<open>
  \<^verbatim>\<open>parseFloat\<close> skips leading white space and reads the longest prefix that is a decimal
  literal: a sign, then \<^verbatim>\<open>Infinity\<close> or digits with an optional fraction. An exponent part
  is not read (no text parsed in this program has one). Without a literal the result is NaN.
\<close>

definition parse_unsigned :: "string \<Rightarrow> jsnum" where
  "parse_unsigned s =
     (if take 8 s = ''Infinity'' then PosInf
      else let ip = takeWhile is_digit s;
               fp = (case dropWhile is_digit s of
                       [] \<Rightarrow> []
                     | c # t \<Rightarrow> if c = CHR ''.'' then takeWhile is_digit t else [])
           in if ip = [] \<and> fp = [] then NaN
              else to_double (of_nat (nat_of_digits ip) +
                              of_nat (nat_of_digits fp) / 10 ^ length fp))"

definition parseFloat :: "string \<Rightarrow> jsnum" where
  "parseFloat s =
     (case dropWhile is_space s of
        [] \<Rightarrow> NaN
      | c # t \<Rightarrow>
          if c = CHR ''-'' then js_neg (parse_unsigned t)
          else if c = CHR ''+'' then parse_unsigned t
          else parse_unsigned (c # t))"

section \<open>The storage display\<close>

record storage =
  used :: int      \<comment> \<open>kilobytes in use\<close>
  total :: int     \<comment> \<open>kilobytes in all\<close>

record op1_counts =
  drum_samples :: nat
  synth_samples :: nat
  patches :: nat

record extra_data =
  counts :: "op1_counts option"
  numSamples :: "nat option"

definition OP1_DRUM_LIMIT :: nat where "OP1_DRUM_LIMIT = 42"
definition OP1_SYNTH_LIMIT :: nat where "OP1_SYNTH_LIMIT = 42"
definition OP1_PATCH_LIMIT :: nat where "OP1_PATCH_LIMIT = 100"

text \<open>
  What \<^verbatim>\<open>updateStorageDisplay\<close> writes to the page. An element is named by its id; the
  three colour classes are removed from an element before the new one is added.
\<close>

datatype dom_write =
    SetText string string           \<comment> \<open>\<^verbatim>\<open>textContent\<close> of the element\<close>
  | SetWidth string string          \<comment> \<open>\<^verbatim>\<open>style.width\<close> of the element\<close>
  | SetStorageClass string string   \<comment> \<open>the colour class of the element\<close>

definition storage_percent :: "storage \<Rightarrow> string" where
  \<comment> \<open>\<^verbatim>\<open>((used / total) * 100).toFixed(1)\<close>\<close>
  "storage_percent st = toFixed1 (js_mul (js_div (num (used st)) (num (total st))) (Fin 100))"

definition colorClass :: "string \<Rightarrow> string" where
  "colorClass percent =
     (let percentNum = parseFloat percent
      in if js_ge percentNum (Fin 85) then ''storage-high''
         else if js_ge percentNum (Fin 60) then ''storage-medium''
         else ''storage-low'')"

definition device_prefix :: "string \<Rightarrow> string" where
  \<comment> \<open>\<^verbatim>\<open>device === 'op1' ? 'op1' : 'opz'\<close>\<close>
  "device_prefix device = (if device = ''op1'' then ''op1'' else ''opz'')"

definition if_present :: "(string \<Rightarrow> bool) \<Rightarrow> string \<Rightarrow> (string \<Rightarrow> dom_write list) \<Rightarrow> dom_write list" where
  \<comment> \<open>\<^verbatim>\<open>const elem = document.getElementById(id); if (elem) { ... }\<close>\<close>
  "if_present page i ws = (if page i then ws i else [])"

text \<open>
  \<^verbatim>\<open>updateStorageDisplay(device, storage, extraData)\<close> of \<^verbatim>\<open>configeditor.js\<close>; \<open>page\<close> tells
  which ids the document has. There is no test of \<^verbatim>\<open>total\<close> before the division.
\<close>

definition updateStorageDisplay ::
  "(string \<Rightarrow> bool) \<Rightarrow> string \<Rightarrow> storage \<Rightarrow> extra_data \<Rightarrow> dom_write list" where
  "updateStorageDisplay page device st extraData =
     (let prefix = device_prefix device;
          percent = storage_percent st;
          freeSpace = js_sub (num (total st)) (num (used st));
          cls = colorClass percent
      in if_present page (prefix @ ''-storage-used'')
           (\<lambda>i. [SetText i (toFixed1 (js_div (num (used st)) (Fin 1024)) @ '' MB'')])
       @ if_present page (prefix @ ''-storage-free'')
           (\<lambda>i. [SetText i (toFixed1 (js_div freeSpace (Fin 1024)) @ '' MB'')])
       @ (if device = ''op1'' \<and> counts extraData \<noteq> None then
            (case counts extraData of
               None \<Rightarrow> []
             | Some c \<Rightarrow>
                 if_present page ''op1-drum-samples''
                   (\<lambda>i. [SetText i (string_of_nat (drum_samples c) @ '' / '' @
                                     string_of_nat OP1_DRUM_LIMIT)])
               @ if_present page ''op1-synth-samples''
                   (\<lambda>i. [SetText i (string_of_nat (synth_samples c) @ '' / '' @
                                     string_of_nat OP1_SYNTH_LIMIT)])
               @ if_present page ''op1-patches''
                   (\<lambda>i. [SetText i (string_of_nat (patches c) @ '' / '' @
                                     string_of_nat OP1_PATCH_LIMIT)]))
          else if device = ''opz'' then
            (case numSamples extraData of
               None \<Rightarrow> []
             | Some n \<Rightarrow>
                 if_present page ''opz-samples-used'' (\<lambda>i. [SetText i (string_of_nat n)]))
          else [])
       @ if_present page (prefix @ ''-storage-bar-fill'')
           (\<lambda>i. [SetWidth i (percent @ ''%''), SetStorageClass i cls])
       @ if_present page (prefix @ ''-storage-bar-label'')
           (\<lambda>i. [SetText i (''Storage: '' @ percent @ ''%'')])
       @ if_present page (prefix @ ''-storage-free'') (\<lambda>i. [SetStorageClass i cls]))"

subsection \<open>The claimed percentage and classes\<close>

text \<open>
  The reading of the specification: the percentage is the value of \<^verbatim>\<open>(used / total) * 100\<close>
  rounded to one decimal, a half going away from zero, and the class follows from the rounded
  percentage by the thresholds 85 and 60.
\<close>

definition round1 :: "rat \<Rightarrow> rat" where
  "round1 r = sgn r * of_int \<lfloor>\<bar>r\<bar> * 10 + 1 / 2\<rfloor> / 10"

definition decimal1 :: "rat \<Rightarrow> string" where
  \<comment> \<open>a non-negative multiple of one tenth in decimal notation with one fraction digit\<close>
  "decimal1 p = string_of_nat (nat \<lfloor>p\<rfloor>) @ ''.'' @ [digit_char (nat \<lfloor>p * 10\<rfloor> mod 10)]"

definition percent_class :: "rat \<Rightarrow> string" where
  "percent_class p =
     (if 85 \<le> p then ''storage-high''
      else if 60 \<le> p then ''storage-medium''
      else ''storage-low'')"

definition full_page :: "string \<Rightarrow> bool" where
  \<comment> \<open>a document that has every element the code looks up\<close>
  "full_page i = True"

section \<open>Rendering the slots of the slot-based device\<close>

record slot =
  slot_path :: "string option"
  slot_filename :: "string option"     \<comment> \<open>\<open>None\<close>: the field is absent, null or not a string\<close>
  slot_filesize :: "int option"        \<comment> \<open>bytes\<close>

record snapshot =
  validation_error :: "string option"
  snap_storage :: "storage option"
  categories :: "string list"
  sampleData :: "slot list list"

text \<open>
  The condition under which \<^verbatim>\<open>fetchOpzSamples\<close> increments the sample counter
  (\<^verbatim>\<open>opzNumSamples\<close> in \<^verbatim>\<open>configeditor.js\<close>, \<^verbatim>\<open>numSamples\<close> in \<^verbatim>\<open>samplemanager.js\<close>):
  \<^verbatim>\<open>typeof slot.filename === "string" && slot.filename !== "(empty)" && !slot.filename.startsWith("~")\<close>.
\<close>

definition occupied :: "slot \<Rightarrow> bool" where
  "occupied s =
     (case slot_filename s of
        None \<Rightarrow> False
      | Some f \<Rightarrow> f \<noteq> ''(empty)'' \<and> take 1 f \<noteq> ''~'')"

definition slot_label :: "nat \<Rightarrow> slot \<Rightarrow> string" where
  \<comment> \<open>the text of the slot: \<^verbatim>\<open>Slot ${slotIndex + 1}: ${filename}${filesize}\<close>\<close>
  "slot_label slotIndex s =
     (let filename = or_else (slot_filename s) ''(empty)'';
          filesize = (case slot_filesize s of
                        None \<Rightarrow> []
                      | Some n \<Rightarrow>
                          if n = 0 then []
                          else '' ('' @ toFixed1 (js_div (num n) (Fin 1024)) @ '' KB)'')
      in ''Slot '' @ string_of_nat (slotIndex + 1) @ '': '' @ filename @ filesize)"

record opz_view =
  opzStorageUsed :: int
  OPZ_TOTAL_STORAGE :: int
  opzNumSamples :: nat
  containers :: "string \<Rightarrow> string list"   \<comment> \<open>the slot texts in the container of each category\<close>
  display :: "dom_write list"              \<comment> \<open>the writes of the last \<^verbatim>\<open>updateStorageDisplay\<close>\<close>
  error_html :: "string option"            \<comment> \<open>the error panel, when it is shown\<close>
  storage_info_hidden :: bool
  file_list_hidden :: bool
  console :: "string list"

definition initial_view :: opz_view where
  "initial_view =
     \<lparr>opzStorageUsed = 0, OPZ_TOTAL_STORAGE = 24000, opzNumSamples = 0,
      containers = (\<lambda>c. []), display = [], error_html = None,
      storage_info_hidden = False, file_list_hidden = False, console = []\<rparr>"

text \<open>
  The inner \<^verbatim>\<open>forEach\<close> over the slots of one category. \<open>Inl\<close> is an exception: without
  \<^verbatim>\<open>data.storage\<close> the call of \<^verbatim>\<open>updateStorageDisplay\<close> reads a field of
  \<^verbatim>\<open>undefined\<close>, after the counter has been incremented and before the slot is appended.
\<close>

fun render_slots ::
  "(string \<Rightarrow> bool) \<Rightarrow> storage option \<Rightarrow> string \<Rightarrow> nat \<Rightarrow> slot list \<Rightarrow> opz_view
   \<Rightarrow> opz_view + opz_view" where
  "render_slots page st category slotIndex [] v = Inr v"
| "render_slots page st category slotIndex (s # rest) v =
     (let v1 = (if occupied s then v\<lparr>opzNumSamples := opzNumSamples v + 1\<rparr> else v)
      in case st of
           None \<Rightarrow> Inl v1
         | Some stg \<Rightarrow>
             render_slots page st category (slotIndex + 1) rest
               (v1\<lparr>display :=
                      updateStorageDisplay page ''opz'' stg
                        \<lparr>counts = None, numSamples = Some (opzNumSamples v1)\<rparr>,
                    containers :=
                      (containers v1)(category := containers v1 category @ [slot_label slotIndex s])\<rparr>))"

text \<open>
  The outer \<^verbatim>\<open>forEach\<close> over the categories, with the rows of \<^verbatim>\<open>sampleData\<close> that remain
  from the current index on. A category without a container is skipped
  (\<^verbatim>\<open>if (!container) return;\<close>); a category without a row throws after its container has
  been emptied.
\<close>

fun render_categories ::
  "(string \<Rightarrow> bool) \<Rightarrow> storage option \<Rightarrow> string list \<Rightarrow> slot list list \<Rightarrow> opz_view
   \<Rightarrow> opz_view + opz_view" where
  "render_categories page st [] rows v = Inr v"
| "render_categories page st (category # cs) rows v =
     (if \<not> page category then render_categories page st cs (tl rows) v
      else
        (let v1 = v\<lparr>containers := (containers v)(category := [])\<rparr>
         in case rows of
              [] \<Rightarrow> Inl v1
            | slots # rows' \<Rightarrow>
                (case render_slots page st category 0 slots v1 of
                   Inl e \<Rightarrow> Inl e
                 | Inr v2 \<Rightarrow> render_categories page st cs rows' v2)))"

datatype snapshot_reply =
    SnapRejected                    \<comment> \<open>the fetch rejects\<close>
  | SnapStatus bool "snapshot option" \<comment> \<open>\<^verbatim>\<open>response.ok\<close>, and the body when it is JSON\<close>

definition fetch_failed :: "opz_view \<Rightarrow> opz_view" where
  \<comment> \<open>the \<^verbatim>\<open>catch\<close> block of \<^verbatim>\<open>fetchOpzSamples\<close>\<close>
  "fetch_failed v = v\<lparr>console := console v @ [''Failed to fetch OP-Z samples:'']\<rparr>"

text \<open>
  \<^verbatim>\<open>fetchOpzSamples\<close> of \<^verbatim>\<open>configeditor.js\<close>, from the view before the call to the view
  after it. The elements of the error panel are part of the page.
\<close>

definition fetchOpzSamples :: "(string \<Rightarrow> bool) \<Rightarrow> snapshot_reply \<Rightarrow> opz_view \<Rightarrow> opz_view" where
  \<open>fetchOpzSamples page r v =
     (case r of
        SnapRejected \<Rightarrow> fetch_failed v
      | SnapStatus ok b \<Rightarrow>
          if \<not> ok then fetch_failed v
          else
            (case b of
               None \<Rightarrow> fetch_failed v
             | Some data \<Rightarrow>
                 if or_else (validation_error data) [] \<noteq> [] then
                   v\<lparr>error_html := Some (or_else (validation_error data) [] @
                        '' <a href="/utilitysettings" class="btn btn-danger">Go to Utility Settings</a>''),
                     storage_info_hidden :=
                       (if page ''opz-storage-info'' then True else storage_info_hidden v),
                     file_list_hidden :=
                       (if page ''opz-file-list'' then True else file_list_hidden v)\<rparr>
                 else
                   (let v1 = v\<lparr>error_html := None,
                               storage_info_hidden :=
                                 (if page ''opz-storage-info'' then False else storage_info_hidden v),
                               file_list_hidden :=
                                 (if page ''opz-file-list'' then False else file_list_hidden v),
                               opzStorageUsed :=
                                 (case snap_storage data of None \<Rightarrow> 0 | Some st \<Rightarrow> used st),
                               OPZ_TOTAL_STORAGE :=
                                 (case snap_storage data of
                                    None \<Rightarrow> OPZ_TOTAL_STORAGE v
                                  | Some st \<Rightarrow> total st),
                               opzNumSamples := 0\<rparr>
                    in case render_categories page (snap_storage data) (categories data)
                              (sampleData data) v1 of
                         Inl e \<Rightarrow> fetch_failed e
                       | Inr v2 \<Rightarrow> v2)))\<close>

section \<open>Moving a sample between slots\<close>

text \<open>
  \<^verbatim>\<open>dragstart\<close> of a slot stores \<^verbatim>\<open>JSON.stringify({category, slot: slotIndex, path: slot.path})\<close>
  under \<^verbatim>\<open>text/plain\<close>; \<^verbatim>\<open>path\<close> is left out when the slot has none. The \<^verbatim>\<open>drop\<close> handler
  reads the text back: it is empty, or \<^verbatim>\<open>JSON.parse\<close> fails on it, or it is such an object.
\<close>

datatype text_data =
    NoText
  | Unparseable
  | MovePayload (p_category: string) (p_slot: nat) (p_path: "string option")

record drop_event =
  files :: "string list"       \<comment> \<open>\<^verbatim>\<open>e.dataTransfer.files\<close>, by name\<close>
  text_plain :: text_data      \<comment> \<open>\<^verbatim>\<open>e.dataTransfer.getData("text/plain")\<close>\<close>

definition move_request :: "string \<Rightarrow> string \<Rightarrow> string \<Rightarrow> nat \<Rightarrow> request" where
  "move_request base fromPath category slotIndex =
     Request ''POST'' (base @ ''/move-sample'')
       (FormData [(''source_path'', Text fromPath),
                  (''target_category'', Text category),
                  (''target_slot'', Text (string_of_nat slotIndex))])"

text \<open>
  The \<^verbatim>\<open>drop\<close> listener that \<^verbatim>\<open>fetchOpzSamples\<close> attaches to the slot \<open>slotIndex\<close> of
  \<open>category\<close>. \<open>base\<close> is the origin the requests go to: \<^verbatim>\<open>http://localhost:5000\<close> in
  \<^verbatim>\<open>samplemanager.js\<close>, empty in \<^verbatim>\<open>configeditor.js\<close>; the two listeners are otherwise the
  same. \<open>move_result\<close> is the outcome of the move request, if one is sent.
\<close>

definition slot_drop ::
  "string \<Rightarrow> string \<Rightarrow> nat \<Rightarrow> drop_event \<Rightarrow> fetch_result \<Rightarrow> action list" where
  "slot_drop base category slotIndex e move_result =
     [PreventDefault, ClassRemove ''drag-hover''] @
     (if files e \<noteq> [] then []
      else case text_plain e of
        NoText \<Rightarrow> []
      | Unparseable \<Rightarrow> [Uncaught]
      | MovePayload d_category d_slot d_path \<Rightarrow>
          (case d_path of
             None \<Rightarrow> []
           | Some fromPath \<Rightarrow>
               if fromPath = [] \<or> (d_category = category \<and> d_slot = slotIndex) then []
               else Fetch (move_request base fromPath category slotIndex) #
                 (case move_result of
                    Response True b \<Rightarrow> [Call FetchOpzSamples]
                  | Response False b \<Rightarrow>
                      [ConsoleError ''Failed to move sample:'', Alert ''Could not move sample.'']
                  | Rejected msg \<Rightarrow>
                      [ConsoleError ''Failed to move sample:'', Alert ''Could not move sample.''])))"

section \<open>Deleting a sample\<close>

definition last_segment :: "string \<Rightarrow> string" where
  \<comment> \<open>\<^verbatim>\<open>path.split('/').pop()\<close>\<close>
  "last_segment path = rev (takeWhile (\<lambda>c. c \<noteq> CHR ''/'') (rev path))"

definition delete_request :: "string \<Rightarrow> string \<Rightarrow> request" where
  "delete_request device path =
     Request ''DELETE'' ''/delete-sample'' (Json [(''path'', path), (''device'', device)])"

definition delete_failed :: "string \<Rightarrow> action list" where
  \<comment> \<open>the \<^verbatim>\<open>catch\<close> block of \<^verbatim>\<open>deleteSample\<close>\<close>
  "delete_failed msg =
     [ConsoleError ''Failed to delete sample:'', Alert (''Failed to delete file: '' @ msg)]"

text \<open>
  \<^verbatim>\<open>deleteSample(device, path, refreshCallback)\<close> of \<^verbatim>\<open>configeditor.js\<close>. \<open>confirmed\<close> is the
  user's answer to the dialog, \<open>result\<close> the outcome of the delete request if one is sent. The
  callbacks the code passes (\<^verbatim>\<open>fetchOpzSamples\<close>, \<^verbatim>\<open>fetchOp1Samples\<close>) catch their own errors,
  so the awaited callback returns.
\<close>

definition deleteSample ::
  "string \<Rightarrow> string \<Rightarrow> callback option \<Rightarrow> bool \<Rightarrow> fetch_result \<Rightarrow> action list" where
  \<open>deleteSample device path refreshCallback confirmed result =
     Confirm (''Delete "'' @ last_segment path @ ''"?'') #
     (if \<not> confirmed then []
      else Fetch (delete_request device path) #
        (case result of
           Rejected msg \<Rightarrow> delete_failed msg
         | Response ok b \<Rightarrow>
             if \<not> ok then
               (case b of
                  NotJson msg \<Rightarrow> delete_failed msg
                | JsonObj err errs \<Rightarrow> delete_failed (or_else err ''Failed to delete file''))
             else
               (case refreshCallback of
                  None \<Rightarrow> []
                | Some cb \<Rightarrow> [Call cb])))\<close>

section \<open>Polling for the mount path\<close>

text \<open>
  One attempt of \<^verbatim>\<open>pollForMount\<close> asks for the setting \<^verbatim>\<open>OPZ_MOUNT_PATH\<close>. The fetch or
  the decoding of its answer fails, or the answer carries \<^verbatim>\<open>config_value\<close> (a string, or
  nothing). When the value is truthy the code awaits the load inside the same \<^verbatim>\<open>try\<close>
  block: \<^verbatim>\<open>fetchOpzSamples\<close> (samplemanager.js) catches every error itself,
  \<^verbatim>\<open>loadAllConfigs\<close> (configeditor.js) rejects when one of its own fetches fails, and the
  \<^verbatim>\<open>catch\<close> of the loop then logs the error and the loop goes on.
\<close>

datatype config_reply =
    FetchFailed
  | ConfigValue "string option"

record attempt =
  reply :: config_reply     \<comment> \<open>the answer to the query of this attempt\<close>
  load_throws :: bool       \<comment> \<open>whether the load, if this attempt starts it, throws\<close>

definition mount_query :: request where
  "mount_query = Request ''GET'' ''/get-config-setting?config_option=OPZ_MOUNT_PATH'' NoBody"

definition truthy :: "config_reply \<Rightarrow> bool" where
  "truthy r = (case r of FetchFailed \<Rightarrow> False | ConfigValue None \<Rightarrow> False
               | ConfigValue (Some v) \<Rightarrow> v \<noteq> [])"

definition empty_value :: "config_reply \<Rightarrow> bool" where
  \<comment> \<open>the answer arrived and its \<^verbatim>\<open>config_value\<close> is missing or the empty string\<close>
  "empty_value r = (r = ConfigValue None \<or> r = ConfigValue (Some []))"

function pollLoop :: "callback \<Rightarrow> (nat \<Rightarrow> attempt) \<Rightarrow> nat \<Rightarrow> nat \<Rightarrow> nat \<Rightarrow> action list" where
  "pollLoop load env retries delay i =
     (if i < retries then
        Fetch mount_query #
        (case reply (env i) of
           FetchFailed \<Rightarrow>
             ConsoleError ''Failed to check mount path:'' # Sleep delay #
             pollLoop load env retries delay (Suc i)
         | ConfigValue v \<Rightarrow>
             if truthy (ConfigValue v) then
               Call load #
               (if load_throws (env i) then
                  ConsoleError ''Failed to check mount path:'' # Sleep delay #
                  pollLoop load env retries delay (Suc i)
                else [])
             else Sleep delay # pollLoop load env retries delay (Suc i))
      else [ConsoleWarn ''Mount path not found after polling.''])"
  by pat_completeness auto
termination
  by (relation "measure (\<lambda>(load, env, retries, delay, i). retries - i)") auto

declare pollLoop.simps [simp del]

definition pollForMount :: "callback \<Rightarrow> (nat \<Rightarrow> attempt) \<Rightarrow> action list" where
  \<comment> \<open>the call \<^verbatim>\<open>pollForMount()\<close> with the defaults \<^verbatim>\<open>retries = 60, delay = 2000\<close>\<close>
  "pollForMount load env = pollLoop load env 60 2000 0"

text \<open>
  An environment in which the setting is empty on the first three attempts and set from the
  fourth on, and in which the load started by the fourth attempt throws.
\<close>

definition flaky_load_env :: "nat \<Rightarrow> attempt" where
  "flaky_load_env i =
     \<lparr>reply = (if i < 3 then ConfigValue (Some []) else ConfigValue (Some ''/Volumes/OP-Z'')),
      load_throws = (i = 3)\<rparr>"

definition steady_env :: "nat \<Rightarrow> attempt" where
  "steady_env i =
     \<lparr>reply = (if i < 3 then ConfigValue (Some []) else ConfigValue (Some ''/Volumes/OP-Z'')),
      load_throws = False\<rparr>"

definition silent_env :: "nat \<Rightarrow> attempt" where
  \<comment> \<open>an environment in which the setting is never set\<close>
  "silent_env i = \<lparr>reply = ConfigValue None, load_throws = False\<rparr>"

section \<open>Rendering the folders of the folder-based device\<close>

text \<open>
  \<^verbatim>\<open>escapeHtml\<close> assigns the text to \<^verbatim>\<open>textContent\<close> of a fresh element and reads
  \<^verbatim>\<open>innerHTML\<close> back: the HTML serialisation of one text node, which replaces the ampersand,
  the no-break space (code unit \<open>0xA0\<close>) and the two angle brackets and leaves every other
  character, both quotation marks included, as it is.
\<close>

definition escape_char :: "char \<Rightarrow> string" where
  "escape_char c =
     (if c = CHR ''&'' then ''&amp;''
      else if c = CHR 0xA0 then ''&nbsp;''
      else if c = CHR ''<'' then ''&lt;''
      else if c = CHR ''>'' then ''&gt;''
      else [c])"

definition escapeHtml :: "string \<Rightarrow> string" where
  "escapeHtml text = concat (map escape_char text)"

record op1_file =
  file_name :: string
  file_path :: string
  file_size :: int         \<comment> \<open>bytes\<close>
  file_category :: string

text \<open>
  The comparison function given to \<^verbatim>\<open>sort\<close>. \<^verbatim>\<open>String.prototype.localeCompare\<close> is the
  collation of the host and is a parameter here.
\<close>

definition subdir_compare :: "(string \<Rightarrow> string \<Rightarrow> int) \<Rightarrow> string \<Rightarrow> string \<Rightarrow> int" where
  "subdir_compare localeCompare a b =
     (if a = ''user'' then 1
      else if b = ''user'' then - 1
      else localeCompare a b)"

text \<open>
  \<^verbatim>\<open>Array.prototype.sort\<close> with a comparison function is a stable sort (ECMA-262); it is
  modelled by insertion from the right, which places an element before the first element it
  does not come after.
\<close>

fun insert_by :: "('a \<Rightarrow> 'a \<Rightarrow> int) \<Rightarrow> 'a \<Rightarrow> 'a list \<Rightarrow> 'a list" where
  "insert_by cmp x [] = [x]"
| "insert_by cmp x (y # ys) = (if cmp x y \<le> 0 then x # y # ys else y # insert_by cmp x ys)"

definition array_sort :: "('a \<Rightarrow> 'a \<Rightarrow> int) \<Rightarrow> 'a list \<Rightarrow> 'a list" where
  "array_sort cmp xs = foldr (insert_by cmp) xs []"

text \<open>
  A collation for the examples: the lexicographic order of the code units, with which
  \<^verbatim>\<open>localeCompare\<close> agrees on names of lower-case ASCII letters.
\<close>

fun codeunit_compare :: "string \<Rightarrow> string \<Rightarrow> int" where
  "codeunit_compare [] [] = 0"
| "codeunit_compare [] (y # ys) = - 1"
| "codeunit_compare (x # xs) [] = 1"
| "codeunit_compare (x # xs) (y # ys) =
     (if (of_char x :: nat) < of_char y then - 1
      else if (of_char y :: nat) < of_char x then 1
      else codeunit_compare xs ys)"

definition nl :: string where
  "nl = [CHR 0x0A]"

definition indent :: "nat \<Rightarrow> string" where
  "indent n = replicate n CHR '' ''"

definition expand_glyph :: string where
  \<comment> \<open>the character U+25B6 of the template, as a numeric character reference\<close>
  "expand_glyph = ''&#9654;''"

definition delete_glyph :: string where
  \<comment> \<open>the character U+2715 of the template, as a numeric character reference\<close>
  "delete_glyph = ''&#10005;''"

definition join :: "string \<Rightarrow> string list \<Rightarrow> string" where
  \<comment> \<open>\<^verbatim>\<open>Array.prototype.join\<close>\<close>
  "join sep parts =
     (case parts of [] \<Rightarrow> [] | p # ps \<Rightarrow> p @ concat (map (\<lambda>q. sep @ q) ps))"

definition countText :: "string \<Rightarrow> op1_file list \<Rightarrow> string" where
  "countText parentFolder fs =
     (let sampleCount = length (filter (\<lambda>f. file_category f \<noteq> ''patch'') fs);
          patchCount = length (filter (\<lambda>f. file_category f = ''patch'') fs)
      in if parentFolder = ''drum'' then ''('' @ string_of_nat (length fs) @ '' files)''
         else
           (let parts =
                  (if 0 < sampleCount
                   then [string_of_nat sampleCount @ '' sample'' @
                         (if sampleCount \<noteq> 1 then ''s'' else [])]
                   else [])
                @ (if 0 < patchCount
                   then [string_of_nat patchCount @ '' patch'' @
                         (if patchCount \<noteq> 1 then ''es'' else [])]
                   else [])
            in if parts \<noteq> [] then ''('' @ join '', '' parts @ '')'' else ''(empty)''))"

text \<open>
  The markup assigned to \<^verbatim>\<open>header.innerHTML\<close>, with the line breaks and the indentation of
  the template literal. The name passes through \<^verbatim>\<open>escapeHtml\<close> in the name element; the two
  \<^verbatim>\<open>onclick\<close> attributes of a folder that is not read-only interpolate it as it is.
\<close>

definition header_html :: "string \<Rightarrow> string \<Rightarrow> op1_file list \<Rightarrow> string" where
  \<open>header_html parentFolder subdirName fs =
     nl @ indent 12 @ ''<span class="expand-icon">'' @ expand_glyph @ ''</span>'' @
     nl @ indent 12 @ ''<span class="subdirectory-name">'' @ escapeHtml subdirName @ ''</span>'' @
     nl @ indent 12 @ ''<span class="sample-count">'' @ countText parentFolder fs @ ''</span>'' @
     nl @ indent 12 @
     (if subdirName = ''user'' then ''<span class="read-only-badge">Read-only</span>''
      else
        nl @ indent 16 @ ''<div class="subdirectory-actions">'' @
        nl @ indent 20 @
          ''<button class="btn btn-small btn-secondary" onclick="event.stopPropagation(); renameOp1Subdirectory('' @
          [CHR 0x27] @ parentFolder @ ''/'' @ subdirName @ [CHR 0x27] @ '')">Rename</button>'' @
        nl @ indent 20 @
          ''<button class="btn btn-small btn-danger" onclick="event.stopPropagation(); deleteOp1Subdirectory('' @
          [CHR 0x27] @ parentFolder @ ''/'' @ subdirName @ [CHR 0x27] @ '')">Delete</button>'' @
        nl @ indent 16 @ ''</div>'' @
        nl @ indent 12) @
     nl @ indent 8\<close>

definition file_html :: "bool \<Rightarrow> op1_file \<Rightarrow> string" where
  \<open>file_html isReadOnly f =
     (let sizeKB = toFixed1 (js_div (num (file_size f)) (Fin 1024));
          isPatch = (file_category f = ''patch'');
          badgeClass = (if isPatch then ''patch'' else ''sample'');
          badgeText = (if isPatch then ''patch'' else ''sample'')
      in nl @ indent 20 @ ''<span class="sample-name">'' @ escapeHtml (file_name f) @ ''</span>'' @
         nl @ indent 20 @ ''<span class="sample-size">'' @ sizeKB @ '' KB</span>'' @
         nl @ indent 20 @ ''<span class="sample-type-badge '' @ badgeClass @ ''">'' @ badgeText @
           ''</span>'' @
         nl @ indent 20 @
         (if \<not> isReadOnly
          then ''<button class="delete-btn" onclick="deleteSample('' @ [CHR 0x27] @ ''op1'' @
               [CHR 0x27] @ '', '' @ [CHR 0x27] @ escapeHtml (file_path f) @ [CHR 0x27] @
               '', fetchOp1Samples)">'' @ delete_glyph @ ''</button>''
          else []) @
         nl @ indent 16)\<close>

record subdir_view =
  sv_name :: string             \<comment> \<open>the folder name the listeners of the element close over\<close>
  sv_path :: string             \<comment> \<open>\<^verbatim>\<open>dataset.path\<close>\<close>
  sv_read_only :: bool          \<comment> \<open>the class \<^verbatim>\<open>read-only\<close>\<close>
  sv_header :: string           \<comment> \<open>\<^verbatim>\<open>innerHTML\<close> of the header\<close>
  sv_content :: "string list"   \<comment> \<open>\<^verbatim>\<open>innerHTML\<close> of the content, or of each of its file elements\<close>
  sv_drop_zone :: bool          \<comment> \<open>whether \<^verbatim>\<open>setupOp1SubdirectoryDropZone\<close> was called\<close>

datatype section_view =
    NoContainer                  \<comment> \<open>the container is missing: nothing is done\<close>
  | NoFolders string             \<comment> \<open>no folder: the message assigned to the container\<close>
  | Folders "subdir_view list"   \<comment> \<open>the folder elements appended, in order\<close>

definition render_subdir :: "string \<Rightarrow> string \<Rightarrow> op1_file list \<Rightarrow> subdir_view" where
  \<open>render_subdir parentFolder subdirName fs =
     (let isReadOnly = (subdirName = ''user'')
      in \<lparr>sv_name = subdirName,
          sv_path = parentFolder @ ''/'' @ subdirName,
          sv_read_only = isReadOnly,
          sv_header = header_html parentFolder subdirName fs,
          sv_content =
            (if fs = [] then [''<p class="empty-subdirectory">No files in this folder</p>'']
             else map (file_html isReadOnly) fs),
          sv_drop_zone = (\<not> isReadOnly)\<rparr>)\<close>

definition lookup_files :: "(string \<times> op1_file list) list \<Rightarrow> string \<Rightarrow> op1_file list" where
  \<comment> \<open>\<^verbatim>\<open>subdirectories[subdirName]\<close> for a name among the keys\<close>
  "lookup_files subdirectories subdirName =
     (case map_of subdirectories subdirName of None \<Rightarrow> [] | Some fs \<Rightarrow> fs)"

text \<open>
  \<^verbatim>\<open>renderOp1Section(parentFolder, subdirectories)\<close>. The object \<^verbatim>\<open>subdirectories\<close> is the
  list of its entries in the order of \<^verbatim>\<open>Object.keys\<close>; the keys of an object are distinct.
\<close>

definition renderOp1Section ::
  "(string \<Rightarrow> string \<Rightarrow> int) \<Rightarrow> (string \<Rightarrow> bool) \<Rightarrow> string \<Rightarrow> (string \<times> op1_file list) list
   \<Rightarrow> section_view" where
  \<open>renderOp1Section localeCompare page parentFolder subdirectories =
     (if \<not> page (''op1-'' @ parentFolder @ ''-subdirectories'') then NoContainer
      else
        (let sortedSubdirs = array_sort (subdir_compare localeCompare) (map fst subdirectories)
         in if sortedSubdirs = [] then
              NoFolders ''<p class="empty-subdirectory">No folders yet. Click "+ Add Folder" to create one.</p>''
            else
              Folders (map (\<lambda>subdirName.
                 render_subdir parentFolder subdirName (lookup_files subdirectories subdirName))
                 sortedSubdirs)))\<close>

text \<open>
  What is asked of the collation: it compares any two names, it is transitive, and its sign
  turns when its arguments are exchanged. \<open>folder_le\<close> is the order the comparison function
  of \<^verbatim>\<open>renderOp1Section\<close> then describes: the reserved name after every other name, the
  other names by the collation.
\<close>

definition collation :: "(string \<Rightarrow> string \<Rightarrow> int) \<Rightarrow> bool" where
  "collation lc =
     ((\<forall>a b. lc a b \<le> 0 \<or> lc b a \<le> 0)
      \<and> (\<forall>a b c. lc a b \<le> 0 \<and> lc b c \<le> 0 \<longrightarrow> lc a c \<le> 0)
      \<and> (\<forall>a b. lc a b < 0 \<longrightarrow> 0 < lc b a))"

definition folder_le :: "(string \<Rightarrow> string \<Rightarrow> int) \<Rightarrow> string \<Rightarrow> string \<Rightarrow> bool" where
  "folder_le lc a b = (b = ''user'' \<or> (a \<noteq> ''user'' \<and> lc a b \<le> 0))"

definition rendered_names :: "section_view \<Rightarrow> string list" where
  "rendered_names v = (case v of Folders svs \<Rightarrow> map sv_name svs | _ \<Rightarrow> [])"

definition markup_of :: "section_view \<Rightarrow> string" where
  \<comment> \<open>all the markup the rendering assigns to \<^verbatim>\<open>innerHTML\<close>\<close>
  "markup_of v =
     (case v of
        NoContainer \<Rightarrow> []
      | NoFolders msg \<Rightarrow> msg
      | Folders svs \<Rightarrow> concat (map (\<lambda>sv. sv_header sv @ concat (sv_content sv)) svs))"

fun contains :: "string \<Rightarrow> string \<Rightarrow> bool" where
  \<comment> \<open>the second string occurs in the first\<close>
  "contains [] sub = (sub = [])"
| "contains (c # cs) sub = (take (length sub) (c # cs) = sub \<or> contains cs sub)"

section \<open>Dropping a folder on a section\<close>

text \<open>
  An entry of the File and Directory Entries API: a file, by name, or a directory with its
  name and the entries that its reader delivers to the first call of \<^verbatim>\<open>readEntries\<close>.
\<close>

datatype fs_entry =
    FileEntry string
  | DirectoryEntry string "fs_entry list"

text \<open>
  \<^verbatim>\<open>getFilesFromDirectory\<close> creates a reader, calls \<^verbatim>\<open>readEntries\<close> once and keeps the
  entries for which \<^verbatim>\<open>isFile\<close> holds. It is only called on directory entries.
\<close>

fun getFilesFromDirectory :: "fs_entry \<Rightarrow> string list" where
  "getFilesFromDirectory (DirectoryEntry name entries) =
     concat (map (\<lambda>entry. case entry of FileEntry f \<Rightarrow> [f] | DirectoryEntry n es \<Rightarrow> []) entries)"
| "getFilesFromDirectory (FileEntry f) = []"

text \<open>The files of an entry at any depth, which the specification asks for.\<close>

fun all_files :: "fs_entry \<Rightarrow> string list" where
  "all_files (FileEntry f) = [f]"
| "all_files (DirectoryEntry name entries) = concat (map all_files entries)"

definition upload_folder_request :: "string \<Rightarrow> string \<Rightarrow> string list \<Rightarrow> request" where
  "upload_folder_request parentFolder folderName fs =
     Request ''POST'' ''/upload-op1-folder''
       (FormData ((''parent'', Text parentFolder) # (''folder_name'', Text folderName) #
                  map (\<lambda>f. (''files'', FileBlob f)) fs))"

definition upload_failed :: "string \<Rightarrow> action list" where
  "upload_failed msg =
     [ConsoleError ''Failed to upload folder:'', Alert (''Failed to upload folder: '' @ msg)]"

text \<open>
  The \<^verbatim>\<open>drop\<close> listener that \<^verbatim>\<open>setupOp1SectionDropZone\<close> attaches to the section of
  \<open>parentFolder\<close>. \<open>items\<close> are the entries of \<^verbatim>\<open>e.dataTransfer.items\<close>
  (\<open>None\<close> where \<^verbatim>\<open>webkitGetAsEntry\<close> is missing or returns null); \<open>result\<close> is the outcome
  of the upload request, if one is sent.
\<close>

definition section_drop :: "string \<Rightarrow> fs_entry option list \<Rightarrow> fetch_result \<Rightarrow> action list" where
  "section_drop parentFolder items result =
     [PreventDefault, ClassRemove ''drag-hover''] @
     (case items of
        [] \<Rightarrow> []
      | None # rest \<Rightarrow> []
      | Some (FileEntry f) # rest \<Rightarrow> []
      | Some (DirectoryEntry folderName entries) # rest \<Rightarrow>
          (let fs = getFilesFromDirectory (DirectoryEntry folderName entries)
           in if fs = [] then [Alert ''The folder is empty.'']
              else
                Fetch (upload_folder_request parentFolder folderName fs) #
                (case result of
                   Rejected msg \<Rightarrow> upload_failed msg
                 | Response ok b \<Rightarrow>
                     (case b of
                        NotJson msg \<Rightarrow> upload_failed msg
                      | JsonObj err errs \<Rightarrow>
                          if \<not> ok then upload_failed (or_else err ''Upload failed'')
                          else if errs \<noteq> []
                          then [Alert (''Some files failed to upload: '' @ join '', '' errs)]
                          else []))
                @ [Call FetchOp1Samples]))"

definition nested_folder :: fs_entry where
  "nested_folder =
     DirectoryEntry ''kit''
       [FileEntry ''kick.aif'', DirectoryEntry ''more'' [FileEntry ''snare.aif'']]"

section \<open>Verified properties\<close>

subsection \<open>Rounding to binary64\<close>

lemma bitlen_powi_bounds:
  assumes "0 < (p::int)"
  shows "(2::rat) powi (bitlen p - 1) \<le> of_int p" and "of_int p < (2::rat) powi (bitlen p)"
proof -
  have b: "1 \<le> bitlen p" using assms by (simp add: bitlen_alt_def)
  from bitlen_bounds[OF assms]
  have l: "2 ^ nat (bitlen p - 1) \<le> p" and u: "p < 2 ^ nat (bitlen p)" by auto
  have "(of_int (2 ^ nat (bitlen p - 1)) :: rat) \<le> of_int p"
    using l by (simp only: of_int_le_iff)
  then show "(2::rat) powi (bitlen p - 1) \<le> of_int p"
    using b by (simp add: power_int_def)
  have "(of_int p :: rat) < of_int (2 ^ nat (bitlen p))"
    using u by (simp only: of_int_less_iff)
  then show "of_int p < (2::rat) powi (bitlen p)"
    using b by (simp add: power_int_def)
qed

lemma ilog2_bounds:
  assumes "0 < r"
  shows "2 powi (ilog2 r) \<le> r" and "r < 2 powi (ilog2 r + 1)"
proof -
  obtain p q where pq: "quotient_of r = (p, q)" by (cases "quotient_of r")
  then have q: "0 < q" and r: "r = of_int p / of_int q"
    by (simp_all add: quotient_of_denom_pos quotient_of_div)
  have p: "0 < p" using assms q r by (simp add: zero_less_divide_iff)
  define d where "d = bitlen p - bitlen q"
  have pl: "(2::rat) powi (bitlen p - 1) \<le> of_int p" and pu: "of_int p < (2::rat) powi (bitlen p)"
    using bitlen_powi_bounds[OF p] by auto
  have ql: "(2::rat) powi (bitlen q - 1) \<le> of_int q" and qu: "of_int q < (2::rat) powi (bitlen q)"
    using bitlen_powi_bounds[OF q] by auto
  have qpos: "(0::rat) < of_int q" using q by simp
  have lo: "2 powi (d - 1) \<le> r"
  proof -
    have "(2::rat) powi (d - 1) * of_int q \<le> 2 powi (d - 1) * 2 powi (bitlen q)"
      using qu by (simp add: zero_less_power_int)
    also have "\<dots> = 2 powi (bitlen p - 1)"
      by (simp add: d_def flip: power_int_add)
    also have "\<dots> \<le> of_int p" by (rule pl)
    finally show ?thesis using qpos by (simp add: r pos_le_divide_eq)
  qed
  have hi: "r < 2 powi (d + 1)"
  proof -
    have "of_int p < (2::rat) powi (bitlen p)" by (rule pu)
    also have "\<dots> = 2 powi (d + 1) * 2 powi (bitlen q - 1)"
      by (simp add: d_def flip: power_int_add)
    also have "\<dots> \<le> 2 powi (d + 1) * of_int q"
      using ql by (simp add: zero_less_power_int)
    finally show ?thesis using qpos by (simp add: r pos_divide_less_eq)
  qed
  have il: "ilog2 r = (if 2 powi d \<le> r then d else d - 1)"
    by (simp add: ilog2_def pq d_def Let_def)
  show "2 powi (ilog2 r) \<le> r" using lo by (simp add: il)
  show "r < 2 powi (ilog2 r + 1)" using hi by (simp add: il not_le)
qed

lemma ilog2_ge: "0 < r \<Longrightarrow> 2 powi k \<le> r \<Longrightarrow> k \<le> ilog2 r"
proof (rule ccontr)
  assume r: "0 < r" and k: "2 powi k \<le> r" and n: "\<not> k \<le> ilog2 r"
  then have "ilog2 r + 1 \<le> k" by simp
  then have "(2::rat) powi (ilog2 r + 1) \<le> 2 powi k" by (rule power_int_increasing) simp
  with ilog2_bounds(2)[OF r] k show False by simp
qed

lemma ilog2_less: "0 < r \<Longrightarrow> r < 2 powi k \<Longrightarrow> ilog2 r < k"
proof (rule ccontr)
  assume r: "0 < r" and k: "r < 2 powi k" and n: "\<not> ilog2 r < k"
  then have "k \<le> ilog2 r" by simp
  then have "(2::rat) powi k \<le> 2 powi (ilog2 r)" by (rule power_int_increasing) simp
  with ilog2_bounds(1)[OF r] k show False by simp
qed

lemma round_half_even_bounds:
  "of_int (round_half_even q) \<le> q + 1 / 2" "q - 1 / 2 \<le> of_int (round_half_even q)"
proof -
  define f where "f = \<lfloor>q\<rfloor>"
  have f: "of_int f \<le> q" "q < of_int f + 1" unfolding f_def by linarith+
  have r: "round_half_even q =
     (if q - of_int f < 1 / 2 then f else if 1 / 2 < q - of_int f then f + 1
      else if even f then f else f + 1)"
    by (simp add: round_half_even_def f_def Let_def)
  show "of_int (round_half_even q) \<le> q + 1 / 2"
    using f unfolding r by (auto split: if_splits)
  show "q - 1 / 2 \<le> of_int (round_half_even q)"
    using f unfolding r by (auto split: if_splits)
qed

lemma round_half_even_of_int [simp]: "round_half_even (of_int z) = z"
  by (simp add: round_half_even_def)

lemma round_half_even_ge: "of_int z \<le> q \<Longrightarrow> z \<le> round_half_even q"
proof -
  assume "of_int z \<le> q"
  then have "z \<le> \<lfloor>q\<rfloor>" by (simp add: le_floor_iff)
  then show ?thesis by (auto simp: round_half_even_def Let_def)
qed

lemma round_half_even_le: "q \<le> of_int z \<Longrightarrow> round_half_even q \<le> z"
proof -
  assume a: "q \<le> of_int z"
  have "(of_int (round_half_even q) :: rat) \<le> q + 1 / 2" by (rule round_half_even_bounds)
  also have "\<dots> \<le> of_int z + 1 / 2" using a by simp
  finally have "(of_int (round_half_even q) :: rat) < of_int (z + 1)" by simp
  then have "round_half_even q < z + 1" by (simp only: of_int_less_iff)
  then show ?thesis by simp
qed

lemma powi_nat_neg: "e \<le> 0 \<Longrightarrow> (x::rat) / 2 powi e = x * 2 ^ nat (- e)"
  by (simp add: power_int_def field_simps)

lemma round_pos_normal:
  assumes r: "0 < r" and j: "- 1022 \<le> ilog2 r"
  shows "\<exists>n. round_pos r =
            (if (2::rat) ^ 1024 \<le> of_int n * 2 powi (ilog2 r - 52) then PosInf
             else Fin (of_int n * 2 powi (ilog2 r - 52)))
          \<and> n = round_half_even (r / 2 powi (ilog2 r - 52))
          \<and> 2 ^ 52 \<le> n \<and> n \<le> 2 ^ 53"
proof -
  define e where "e = ilog2 r - 52"
  define q where "q = r / 2 powi e"
  have m: "max (ilog2 r - 52) (- 1074) = e" using j by (simp add: e_def)
  have pe: "(0::rat) < 2 powi e" by (simp add: zero_less_power_int)
  have "(2::rat) powi 52 * 2 powi e = 2 powi (52 + e)"
    by (subst power_int_add) simp_all
  also have "\<dots> = 2 powi (ilog2 r)"
  proof -
    have "52 + e = ilog2 r" by (simp add: e_def)
    then show ?thesis by (simp only:)
  qed
  also have "\<dots> \<le> r" by (rule ilog2_bounds(1)[OF r])
  finally have ql: "(2::rat) powi 52 \<le> q" using pe by (simp add: q_def pos_le_divide_eq)
  have "r < (2::rat) powi (ilog2 r + 1)" by (rule ilog2_bounds(2)[OF r])
  also have "\<dots> = 2 powi (53 + e)"
  proof -
    have "ilog2 r + 1 = 53 + e" by (simp add: e_def)
    then show ?thesis by (simp only:)
  qed
  also have "\<dots> = 2 powi 53 * 2 powi e"
    by (subst power_int_add) simp_all
  finally have qu: "q < (2::rat) powi 53" using pe by (simp add: q_def pos_divide_less_eq)
  have "of_int (2 ^ 52) \<le> q" using ql by simp
  then have nl: "2 ^ 52 \<le> round_half_even q" by (rule round_half_even_ge)
  have "q \<le> of_int (2 ^ 53)" using qu by simp
  then have nu: "round_half_even q \<le> 2 ^ 53" by (rule round_half_even_le)
  have "round_pos r = (if (2::rat) ^ 1024 \<le> of_int (round_half_even q) * 2 powi e then PosInf
             else Fin (of_int (round_half_even q) * 2 powi e))"
    by (simp add: round_pos_def m q_def Let_def)
  then show ?thesis using nl nu unfolding e_def q_def by blast
qed

lemma round_pos_int:
  assumes z: "0 < z" "z < 2 ^ 53"
  shows "round_pos (of_int z) = Fin (of_int z)"
proof -
  define r :: rat where "r = of_int z"
  have r: "0 < r" using z by (simp add: r_def)
  have "(2::rat) powi 0 \<le> r" using z by (simp add: r_def)
  then have l0: "0 \<le> ilog2 r" by (rule ilog2_ge[OF r])
  have "r < of_int (2 ^ 53)" unfolding r_def using z(2) by (simp only: of_int_less_iff)
  then have "r < 2 powi 53" by simp
  then have l1: "ilog2 r < 53" by (rule ilog2_less[OF r])
  define e where "e = ilog2 r - 52"
  have e: "e \<le> 0" "- 52 \<le> e" using l0 l1 by (simp_all add: e_def)
  have m: "max (ilog2 r - 52) (- 1074) = e" using e by (simp add: e_def)
  have q: "r / 2 powi e = of_int (z * 2 ^ nat (- e))"
    using e by (simp add: powi_nat_neg r_def)
  have ne: "(2::rat) powi e \<noteq> 0" by simp
  have "r / 2 powi e * 2 powi e = r" using ne by simp
  then have v: "of_int (z * 2 ^ nat (- e)) * 2 powi e = r"
    by (simp only: q)
  have "r < (2::rat) ^ 1024"
  proof -
    have "r < 2 powi 53" by fact
    also have "\<dots> \<le> 2 powi 1024" by (rule power_int_increasing) simp_all
    finally show ?thesis by simp
  qed
  then have "round_pos r = Fin r"
    by (simp add: round_pos_def m q v Let_def del: of_int_mult of_int_power)
  then show ?thesis by (simp add: r_def)
qed

lemma to_double_int: "\<bar>z\<bar> < 2 ^ 53 \<Longrightarrow> to_double (of_int z) = Fin (of_int z)"
proof -
  assume a: "\<bar>z\<bar> < 2 ^ 53"
  consider "z = 0" | "0 < z" | "z < 0" by linarith
  then show ?thesis
  proof cases
    case 1 then show ?thesis by (simp add: to_double_def)
  next
    case 2
    then show ?thesis using a round_pos_int[of z] by (simp add: to_double_def)
  next
    case 3
    then have "round_pos (of_int (- z)) = Fin (of_int (- z))"
      using a by (intro round_pos_int) simp_all
    then show ?thesis using 3 by (simp add: to_double_def)
  qed
qed

lemma round_pos_cases:
  assumes "0 < r"
  shows "round_pos r = PosInf \<or> (\<exists>v. round_pos r = Fin v \<and> 0 \<le> v)"
proof -
  define e where "e = max (ilog2 r - 52) (- 1074)"
  have "(of_int 0 :: rat) \<le> r / 2 powi e" using assms by (simp add: zero_less_power_int)
  then have "0 \<le> round_half_even (r / 2 powi e)" by (rule round_half_even_ge)
  then have "(0::rat) \<le> of_int (round_half_even (r / 2 powi e)) * 2 powi e"
    by (simp add: zero_less_power_int)
  then show ?thesis by (simp add: round_pos_def Let_def e_def)
qed

lemma round_pos_range:
  assumes r: "0 < r" and lo: "2 powi j \<le> r" and hi: "r \<le> 2 powi k"
    and j: "- 1022 \<le> j" and k: "k \<le> 1023"
  shows "\<exists>v. round_pos r = Fin v \<and> 2 powi j \<le> v \<and> v \<le> 2 powi k"
proof -
  define e where "e = ilog2 r - 52"
  have L: "j \<le> ilog2 r" by (rule ilog2_ge[OF r lo])
  have "r < 2 powi (k + 1)"
  proof -
    have "(2::rat) powi k < 2 powi (k + 1)" by (rule power_int_strict_increasing) simp_all
    with hi show ?thesis by simp
  qed
  then have Lk: "ilog2 r \<le> k" using ilog2_less[OF r] by fastforce
  from round_pos_normal[OF r] L j obtain n where
    rp: "round_pos r = (if (2::rat) ^ 1024 \<le> of_int n * 2 powi e then PosInf
             else Fin (of_int n * 2 powi e))"
    and n: "n = round_half_even (r / 2 powi e)" and nl: "2 ^ 52 \<le> n"
    unfolding e_def by auto
  have pe: "(0::rat) < 2 powi e" by (simp add: zero_less_power_int)
  define v :: rat where "v = of_int n * 2 powi e"
  have "(2::rat) powi j \<le> 2 powi (ilog2 r)" using L by (rule power_int_increasing) simp
  also have "\<dots> = 2 powi (52 + e)"
  proof -
    have "ilog2 r = 52 + e" by (simp add: e_def)
    then show ?thesis by (simp only:)
  qed
  also have "\<dots> = 2 powi 52 * 2 powi e" by (subst power_int_add) simp_all
  also have "\<dots> \<le> v"
  proof -
    have "(of_int (2 ^ 52) :: rat) \<le> of_int n" using nl by (simp only: of_int_le_iff)
    then have "(2::rat) powi 52 \<le> of_int n" by simp
    then show ?thesis unfolding v_def using pe by (simp only: mult_le_cancel_right_pos)
  qed
  finally have vlo: "2 powi j \<le> v" .
  define m where "m = nat (k - e)"
  have ke: "0 \<le> k - e" using Lk by (simp add: e_def)
  have "r / 2 powi e \<le> 2 powi k / 2 powi e" using hi pe by (simp add: divide_right_mono)
  also have "\<dots> = 2 powi (k - e)" by (subst power_int_diff) simp_all
  also have "\<dots> = of_int (2 ^ m)" using ke by (simp add: power_int_def m_def)
  finally have "n \<le> 2 ^ m" unfolding n by (rule round_half_even_le)
  then have "(of_int n :: rat) \<le> of_int (2 ^ m)" by (simp only: of_int_le_iff)
  then have "v \<le> of_int (2 ^ m) * 2 powi e"
    unfolding v_def using pe by (simp only: mult_le_cancel_right_pos)
  also have "\<dots> = 2 powi (k - e) * 2 powi e" using ke by (simp add: power_int_def m_def)
  also have "\<dots> = 2 powi k"
  proof -
    have "(2::rat) powi (k - e) * 2 powi e = 2 powi (k - e + e)"
      by (subst power_int_add) simp_all
    then show ?thesis by simp
  qed
  finally have vhi: "v \<le> 2 powi k" .
  have "(2::rat) powi k < 2 powi 1024" using k by (intro power_int_strict_increasing) simp_all
  with vhi have "v < 2 ^ 1024" by simp
  then have "round_pos r = Fin v" by (simp add: rp v_def)
  with vlo vhi show ?thesis by blast
qed

lemma round_pos_ge_int:
  assumes T: "0 < T" "T < 2 ^ 53" and r: "of_int T \<le> r"
  shows "js_ge (round_pos r) (Fin (of_int T))"
proof -
  have r0: "0 < r"
  proof -
    have "(0::rat) < of_int T" using T(1) by simp
    with r show ?thesis by simp
  qed
  have "(2::rat) powi 0 \<le> of_int T" using T(1) by simp
  with r have "(2::rat) powi 0 \<le> r" by simp
  then have L0: "0 \<le> ilog2 r" by (rule ilog2_ge[OF r0])
  define e where "e = ilog2 r - 52"
  from round_pos_normal[OF r0] L0 obtain n where
    rp: "round_pos r = (if (2::rat) ^ 1024 \<le> of_int n * 2 powi e then PosInf
             else Fin (of_int n * 2 powi e))"
    and n: "n = round_half_even (r / 2 powi e)" and nl: "2 ^ 52 \<le> n"
    unfolding e_def by auto
  have pe: "(0::rat) < 2 powi e" by (simp add: zero_less_power_int)
  have "(of_int T :: rat) \<le> of_int n * 2 powi e"
  proof (cases "e \<le> 0")
    case True
    have "(of_int (T * 2 ^ nat (- e)) :: rat) = of_int T / 2 powi e"
      using True by (simp add: powi_nat_neg)
    also have "\<dots> \<le> r / 2 powi e" using r pe by (simp add: divide_right_mono)
    finally have "T * 2 ^ nat (- e) \<le> n" unfolding n by (rule round_half_even_ge)
    then have "(of_int (T * 2 ^ nat (- e)) :: rat) \<le> of_int n" by (simp only: of_int_le_iff)
    then have A: "(of_int (T * 2 ^ nat (- e)) :: rat) * 2 powi e \<le> of_int n * 2 powi e"
      using pe by (simp only: mult_le_cancel_right_pos)
    have B: "(of_int (T * 2 ^ nat (- e)) :: rat) * 2 powi e = of_int T"
    proof -
      have "(of_int T :: rat) / 2 powi e * 2 powi e = of_int T" by simp
      then show ?thesis using True by (simp only: powi_nat_neg of_int_mult of_int_power of_int_numeral)
    qed
    show ?thesis using A unfolding B .
  next
    case False
    have "(of_int T :: rat) < of_int (2 ^ 53)" using T(2) by (simp only: of_int_less_iff)
    then have "(of_int T :: rat) < 2 powi 53" by simp
    also have "\<dots> \<le> 2 powi (52 + e)" using False by (intro power_int_increasing) simp_all
    also have "\<dots> = 2 powi 52 * 2 powi e" by (subst power_int_add) simp_all
    also have "\<dots> \<le> of_int n * 2 powi e"
    proof -
      have "(of_int (2 ^ 52) :: rat) \<le> of_int n" using nl by (simp only: of_int_le_iff)
      then have "(2::rat) powi 52 \<le> of_int n" by simp
      then show ?thesis using pe by (simp only: mult_le_cancel_right_pos)
    qed
    finally show ?thesis by simp
  qed
  then show ?thesis by (simp add: rp)
qed

lemma round_pos_less_int:
  assumes r: "0 < r" "r \<le> of_int T - 1 / 10" and T: "T \<le> 2 ^ 49"
  shows "\<exists>v. round_pos r = Fin v \<and> v < of_int T"
proof -
  define e where "e = max (ilog2 r - 52) (- 1074)"
  define m where "m = nat (- e)"
  have "r < of_int T" using r(2) by simp
  also have "(of_int T :: rat) \<le> of_int (2 ^ 49)" using T by (simp only: of_int_le_iff)
  finally have "r < 2 powi 49" by simp
  then have "ilog2 r < 49" by (rule ilog2_less[OF r(1)])
  then have e: "e \<le> - 4" by (simp add: e_def)
  then have m: "4 \<le> m" "e = - int m" by (simp_all add: m_def)
  have pe: "(0::rat) < 2 powi e" by (simp add: zero_less_power_int)
  have p2: "(2::rat) powi e = 1 / 2 ^ m" using m by (simp add: power_int_minus_divide)
  have m16: "(16::rat) \<le> 2 ^ m"
  proof -
    have "(2::rat) ^ 4 \<le> 2 ^ m" using m(1) by (intro power_increasing) simp_all
    then show ?thesis by simp
  qed
  define n where "n = round_half_even (r / 2 powi e)"
  have "r / 2 powi e = r * 2 ^ m" by (simp add: p2)
  also have "\<dots> \<le> (of_int T - 1 / 10) * 2 ^ m" using r(2) by (simp add: mult_right_mono)
  also have "\<dots> = of_int T * 2 ^ m - 2 ^ m / 10" by (simp add: algebra_simps)
  also have "\<dots> \<le> of_int T * 2 ^ m - 1" using m16 by simp
  also have "\<dots> = of_int (T * 2 ^ m - 1)" by simp
  finally have "n \<le> T * 2 ^ m - 1" unfolding n_def by (rule round_half_even_le)
  then have "(of_int n :: rat) \<le> of_int (T * 2 ^ m - 1)" by (simp only: of_int_le_iff)
  then have "(of_int n :: rat) \<le> of_int T * 2 ^ m - 1" by simp
  then have "(of_int n :: rat) / 2 ^ m \<le> (of_int T * 2 ^ m - 1) / 2 ^ m"
    by (simp add: divide_right_mono)
  also have "\<dots> = of_int T - 1 / 2 ^ m" by (simp add: diff_divide_distrib)
  also have "\<dots> < of_int T" by simp
  finally have v: "(of_int n :: rat) * 2 powi e < of_int T" by (simp add: p2)
  also have "(of_int T :: rat) \<le> of_int (2 ^ 49)" using T by (simp only: of_int_le_iff)
  also have "\<dots> < 2 ^ 1024" by simp
  finally have "\<not> (2::rat) ^ 1024 \<le> of_int n * 2 powi e" by simp
  then have "round_pos r = Fin (of_int n * 2 powi e)"
    by (simp add: round_pos_def Let_def flip: e_def n_def)
  with v show ?thesis by blast
qed

subsection \<open>Decimal strings\<close>

lemma is_digit_digit_char: "d < 10 \<Longrightarrow> is_digit (digit_char d)"
  by (simp add: is_digit_def digit_char_def of_char_of)

lemma digit_val_digit_char: "d < 10 \<Longrightarrow> digit_val (digit_char d) = d"
  by (simp add: digit_val_def digit_char_def of_char_of)

lemma string_of_nat_digits: "c \<in> set (string_of_nat n) \<Longrightarrow> is_digit c"
proof (induction n rule: string_of_nat.induct)
  case (1 n)
  show ?case
  proof (cases "n < 10")
    case True
    with 1(2) show ?thesis by (simp add: string_of_nat.simps[of n] is_digit_digit_char)
  next
    case False
    with 1 show ?thesis
      by (auto simp: string_of_nat.simps[of n] is_digit_digit_char)
  qed
qed

lemma string_of_nat_nonempty: "string_of_nat n \<noteq> []"
  by (subst string_of_nat.simps) simp

lemma nat_of_digits_snoc: "nat_of_digits (s @ [c]) = 10 * nat_of_digits s + digit_val c"
  by (simp add: nat_of_digits_def)

lemma nat_of_digits_string_of_nat: "nat_of_digits (string_of_nat n) = n"
proof (induction n rule: string_of_nat.induct)
  case (1 n)
  show ?case
  proof (cases "n < 10")
    case True
    then show ?thesis
      by (simp add: string_of_nat.simps[of n] nat_of_digits_def digit_val_digit_char)
  next
    case False
    with 1 show ?thesis
      by (simp add: string_of_nat.simps[of n] nat_of_digits_snoc digit_val_digit_char)
  qed
qed

lemma not_digit_dot: "\<not> is_digit CHR ''.''"
  by (simp add: is_digit_def)

lemma takeWhile_digits:
  "takeWhile is_digit (string_of_nat a @ CHR ''.'' # t) = string_of_nat a"
  "dropWhile is_digit (string_of_nat a @ CHR ''.'' # t) = CHR ''.'' # t"
  using string_of_nat_digits[of _ a] not_digit_dot
  by (simp_all add: takeWhile_append1 takeWhile_append2 dropWhile_append1 dropWhile_append2
        takeWhile_eq_all_conv dropWhile_eq_Nil_conv)

lemma parse_unsigned_decimal:
  assumes "d < 10"
  shows "parse_unsigned (string_of_nat a @ ''.'' @ [digit_char d]) =
         to_double (of_nat (10 * a + d) / 10)"
proof -
  obtain c cs where cs: "string_of_nat a = c # cs"
    using string_of_nat_nonempty[of a] by (cases "string_of_nat a") auto
  have c: "is_digit c" using string_of_nat_digits[of c a] cs by simp
  have ninf: "take 8 (string_of_nat a @ ''.'' @ [digit_char d]) \<noteq> ''Infinity''"
    using c by (auto simp: cs is_digit_def)
  have tw: "takeWhile is_digit [digit_char d] = [digit_char d]"
    using assms by (simp add: is_digit_digit_char)
  have nd: "nat_of_digits [digit_char d] = d"
    using assms by (simp add: nat_of_digits_def digit_val_digit_char)
  have "parse_unsigned (string_of_nat a @ ''.'' @ [digit_char d]) =
        to_double (of_nat a + of_nat d / 10)"
    using ninf assms
    by (simp add: parse_unsigned_def takeWhile_digits tw Let_def string_of_nat_nonempty
          nat_of_digits_string_of_nat nd is_digit_digit_char)
  also have "(of_nat a + of_nat d / 10 :: rat) = of_nat (10 * a + d) / 10" by simp
  finally show ?thesis .
qed


lemma tenths_split: "10 * (n div 10) + n mod 10 = (n::nat)" by simp

lemma parseFloat_toFixed1:
  "parseFloat (toFixed1 (Fin r)) =
     (if r < 0 then js_neg (to_double (of_nat (nat \<lfloor>\<bar>r\<bar> * 10 + 1 / 2\<rfloor>) / 10))
      else to_double (of_nat (nat \<lfloor>\<bar>r\<bar> * 10 + 1 / 2\<rfloor>) / 10))"
proof -
  define n where "n = nat \<lfloor>\<bar>r\<bar> * 10 + 1 / 2\<rfloor>"
  define body where "body = string_of_nat (n div 10) @ ''.'' @ [digit_char (n mod 10)]"
  have "n mod 10 < 10" by simp
  from parse_unsigned_decimal[OF this, of "n div 10"]
  have pu: "parse_unsigned body = to_double (of_nat n / 10)"
    unfolding body_def by (simp only: tenths_split)
  obtain c cs where cs: "string_of_nat (n div 10) = c # cs"
    using string_of_nat_nonempty[of "n div 10"] by (cases "string_of_nat (n div 10)") auto
  have c: "is_digit c" using string_of_nat_digits[of c "n div 10"] cs by simp
  have b: "body = c # cs @ ''.'' @ [digit_char (n mod 10)]" by (simp add: body_def cs)
  have nsp: "\<not> is_space c" "c \<noteq> CHR ''-''" "c \<noteq> CHR ''+''"
    using c by (auto simp: is_digit_def is_space_def)
  have pos: "parseFloat body = parse_unsigned body"
    using nsp by (simp add: parseFloat_def b)
  have neg: "parseFloat (''-'' @ body) = js_neg (parse_unsigned body)"
    by (simp add: parseFloat_def is_space_def)
  have tf: "toFixed1 (Fin r) = (if r < 0 then ''-'' else []) @ body"
    by (simp add: toFixed1_def Let_def body_def n_def)
  show ?thesis
    unfolding tf n_def[symmetric] using pos neg pu by (cases "r < 0") simp_all
qed

lemma to_double_nonneg:
  "0 \<le> r \<Longrightarrow> to_double r = PosInf \<or> (\<exists>v. to_double r = Fin v \<and> 0 \<le> v)"
  using round_pos_cases[of r] by (cases "r = 0") (auto simp: to_double_def)

lemma tenths_ge_threshold:
  assumes T: "0 < T" "T \<le> 2 ^ 49"
  shows "js_ge (to_double (of_nat n / 10)) (Fin (of_int T)) \<longleftrightarrow> 10 * T \<le> int n"
proof (cases "10 * T \<le> int n")
  case True
  then have "(of_int (10 * T) :: rat) \<le> of_int (int n)" by (simp only: of_int_le_iff)
  then have r: "(of_int T :: rat) \<le> of_nat n / 10" by simp
  have "(0::rat) < of_int T" using T(1) by simp
  with r have p: "(0::rat) < of_nat n / 10" by linarith
  have "T < 2 ^ 53" using T(2) by simp
  from round_pos_ge_int[OF T(1) this r] p True show ?thesis by (simp add: to_double_def)
next
  case False
  then have "int n \<le> 10 * T - 1" by simp
  then have "(of_int (int n) :: rat) \<le> of_int (10 * T - 1)" by (simp only: of_int_le_iff)
  then have r: "(of_nat n / 10 :: rat) \<le> of_int T - 1 / 10" by simp
  show ?thesis
  proof (cases "n = 0")
    case True
    then show ?thesis using T(1) by (simp add: to_double_def)
  next
    case n: False
    then have "(0::rat) < of_nat n / 10" by simp
    from round_pos_less_int[OF this r T(2)] obtain v where
      "round_pos (of_nat n / 10) = Fin v" "v < of_int T" by blast
    then show ?thesis using False n by (simp add: to_double_def)
  qed
qed

lemma neg_not_ge_threshold:
  assumes "0 < T" "0 \<le> r"
  shows "\<not> js_ge (js_neg (to_double r)) (Fin (of_int T))"
  using to_double_nonneg[OF assms(2)] assms(1) by auto

subsection \<open>The storage display\<close>

lemma digit_char_values:
  "digit_char 0 = CHR ''0''" "digit_char 1 = CHR ''1''" "digit_char 2 = CHR ''2''"
  "digit_char 3 = CHR ''3''" "digit_char 4 = CHR ''4''" "digit_char 5 = CHR ''5''"
  "digit_char 6 = CHR ''6''" "digit_char 7 = CHR ''7''" "digit_char 8 = CHR ''8''"
  "digit_char 9 = CHR ''9''" "digit_char (Suc 0) = CHR ''1''"
  by code_simp+

lemma num_zero [simp]: "num 0 = Fin 0"
  by (simp add: num_def to_double_def)

lemma num_pos_cases:
  assumes "0 < u"
  shows "num u = PosInf \<or> (\<exists>v. num u = Fin v \<and> 0 < v)"
proof -
  have r: "(of_int 1 :: rat) \<le> of_int u" using assms by simp
  have p: "(0::rat) < of_int u" using assms by simp
  have "js_ge (round_pos (of_int u)) (Fin (of_int 1))"
    by (rule round_pos_ge_int[OF _ _ r]) simp_all
  then have "js_ge (num u) (Fin 1)" using p by (simp add: num_def to_double_def)
  then show ?thesis by (cases "num u") auto
qed

lemma js_neg_neg [simp]: "js_neg (js_neg x) = x"
  by (cases x) simp_all

lemma num_neg: "num (- u) = js_neg (num u)"
  by (simp add: num_def to_double_def)

lemma div_zero_pos: "0 < u \<Longrightarrow> js_mul (js_div (num u) (Fin 0)) (Fin 100) = PosInf"
  using num_pos_cases[of u] by auto

lemma div_zero_neg: "u < 0 \<Longrightarrow> js_mul (js_div (num u) (Fin 0)) (Fin 100) = NegInf"
proof -
  assume "u < 0"
  then have "0 < - u" by simp
  from num_pos_cases[OF this] have "num u = NegInf \<or> (\<exists>v. num u = Fin v \<and> v < 0)"
    unfolding num_neg by (cases "num u") auto
  then show ?thesis by auto
qed

lemma parseFloat_special:
  "parseFloat ''Infinity'' = PosInf" "parseFloat ''-Infinity'' = NegInf" "parseFloat ''NaN'' = NaN"
  by (simp_all add: parseFloat_def parse_unsigned_def is_space_def is_digit_def)

lemma to_double_finite:
  assumes r: "r \<noteq> 0" and lo: "2 powi j \<le> \<bar>r\<bar>" and hi: "\<bar>r\<bar> \<le> 2 powi k"
    and j: "- 1022 \<le> j" and k: "k \<le> 1023"
  shows "\<exists>v. to_double r = Fin v \<and> 2 powi j \<le> \<bar>v\<bar> \<and> \<bar>v\<bar> \<le> 2 powi k"
proof (cases "0 < r")
  case True
  from round_pos_range[OF True _ _ j k, of ] lo hi True
  obtain v where v: "round_pos r = Fin v" "2 powi j \<le> v" "v \<le> 2 powi k" by auto
  have "(0::rat) < 2 powi j" by (simp add: zero_less_power_int)
  then have "0 < v" using v(2) by (rule less_le_trans)
  then show ?thesis using v True r by (auto simp: to_double_def)
next
  case False
  then have n: "0 < - r" using r by simp
  from round_pos_range[OF n _ _ j k] lo hi False
  obtain v where v: "round_pos (- r) = Fin v" "2 powi j \<le> v" "v \<le> 2 powi k" by auto
  have "(0::rat) < 2 powi j" by (simp add: zero_less_power_int)
  then have "0 < v" using v(2) by (rule less_le_trans)
  then show ?thesis using v False r by (auto simp: to_double_def)
qed

lemma num_safe: "\<bar>z\<bar> < 2 ^ 53 \<Longrightarrow> num z = Fin (of_int z)"
  by (simp add: num_def to_double_int)

lemma percent_finite:
  assumes t: "0 < t" "t < 2 ^ 53" and u: "\<bar>u\<bar> < 2 ^ 53"
  shows "\<exists>r. js_mul (js_div (num u) (num t)) (Fin 100) = Fin r"
proof (cases "u = 0")
  case True
  then show ?thesis using t by (simp add: num_safe to_double_def)
next
  case False
  define q :: rat where "q = of_int u / of_int t"
  have tp: "(0::rat) < of_int t" using t by simp
  have q0: "q \<noteq> 0" using False t by (simp add: q_def)
  have aq: "\<bar>q\<bar> = of_int \<bar>u\<bar> / of_int t" using t by (simp add: q_def)
  have "(1::rat) \<le> of_int \<bar>u\<bar>"
  proof -
    have "1 \<le> \<bar>u\<bar>" using False by simp
    then have "(of_int 1 :: rat) \<le> of_int \<bar>u\<bar>" by (simp only: of_int_le_iff)
    then show ?thesis by simp
  qed
  moreover have t53: "(of_int t :: rat) \<le> 2 ^ 53"
  proof -
    have "(of_int t :: rat) < of_int (2 ^ 53)" using t(2) by (simp only: of_int_less_iff)
    then show ?thesis by simp
  qed
  ultimately have "1 / 2 ^ 53 \<le> \<bar>q\<bar>"
    unfolding aq using tp by (intro frac_le) simp_all
  then have lo: "2 powi (- 53) \<le> \<bar>q\<bar>" by (simp add: power_int_minus_divide)
  have u53: "(of_int \<bar>u\<bar> :: rat) \<le> 2 ^ 53"
  proof -
    have "(of_int \<bar>u\<bar> :: rat) < of_int (2 ^ 53)" using u by (simp only: of_int_less_iff)
    then show ?thesis by simp
  qed
  have "(1::rat) \<le> of_int t"
  proof -
    have "(of_int 1 :: rat) \<le> of_int t" using t(1) by (simp only: of_int_le_iff)
    then show ?thesis by simp
  qed
  then have "\<bar>q\<bar> \<le> of_int \<bar>u\<bar> / 1"
    unfolding aq by (intro divide_left_mono) simp_all
  with u53 have hi: "\<bar>q\<bar> \<le> 2 powi 53" by simp
  from to_double_finite[OF q0 lo hi] obtain v where
    v: "to_double q = Fin v" "2 powi (- 53) \<le> \<bar>v\<bar>" "\<bar>v\<bar> \<le> 2 powi 53" by auto
  have v0: "v * 100 \<noteq> 0"
  proof -
    have "(0::rat) < 2 powi (- 53)" by (simp add: zero_less_power_int)
    with v(2) show ?thesis by auto
  qed
  have lo2: "2 powi (- 53) \<le> \<bar>v * 100\<bar>"
  proof -
    have "\<bar>v\<bar> \<le> \<bar>v\<bar> * 100" by simp
    with v(2) show ?thesis by (simp add: abs_mult)
  qed
  have hi2: "\<bar>v * 100\<bar> \<le> 2 powi 60"
  proof -
    have "\<bar>v * 100\<bar> = \<bar>v\<bar> * 100" by (simp add: abs_mult)
    also have "\<dots> \<le> 2 powi 53 * 100" using v(3) by simp
    also have "\<dots> \<le> 2 powi 60" by simp
    finally show ?thesis .
  qed
  from to_double_finite[OF v0 lo2 hi2] obtain w where "to_double (v * 100) = Fin w" by auto
  then show ?thesis using t u v(1) by (simp add: num_safe q_def)
qed

lemma tenths_of: "nat \<lfloor>\<bar>r\<bar> * 10 + 1 / 2\<rfloor> = n \<Longrightarrow> \<bar>round1 r\<bar> = of_nat n / 10"
proof -
  assume n: "nat \<lfloor>\<bar>r\<bar> * 10 + 1 / 2\<rfloor> = n"
  have f: "0 \<le> \<lfloor>\<bar>r\<bar> * 10 + 1 / 2\<rfloor>" by simp
  then have i: "(of_int \<lfloor>\<bar>r\<bar> * 10 + 1 / 2\<rfloor> :: rat) = of_nat n"
    using n by (metis of_int_of_nat_eq nat_0_le)
  show ?thesis
  proof (cases "r = 0")
    case True
    then have "n = 0" using n by simp
    then show ?thesis using True by (simp add: round1_def)
  next
    case False
    then have "\<bar>sgn r\<bar> = 1" by (simp add: abs_sgn_eq)
    then show ?thesis by (simp add: round1_def abs_mult i)
  qed
qed

lemma toFixed1_decimal:
  "toFixed1 (Fin r) = (if r < 0 then ''-'' else []) @ decimal1 \<bar>round1 r\<bar>"
proof -
  define n where "n = nat \<lfloor>\<bar>r\<bar> * 10 + 1 / 2\<rfloor>"
  have a: "\<bar>round1 r\<bar> = of_nat n / 10" by (rule tenths_of) (simp add: n_def)
  have "\<lfloor>(of_nat n :: rat) / 10\<rfloor> = int (n div 10)"
    by (metis floor_divide_of_nat_eq of_nat_numeral)
  then have "decimal1 (of_nat n / 10) =
      string_of_nat (n div 10) @ ''.'' @ [digit_char (n mod 10)]"
    by (simp add: decimal1_def)
  then show ?thesis by (simp add: toFixed1_def Let_def a flip: n_def)
qed

lemma colorClass_toFixed1:
  "(colorClass (toFixed1 (Fin r)) = ''storage-high'' \<longleftrightarrow> 85 \<le> round1 r)
   \<and> (colorClass (toFixed1 (Fin r)) = ''storage-medium'' \<longleftrightarrow> 60 \<le> round1 r \<and> round1 r < 85)
   \<and> (colorClass (toFixed1 (Fin r)) = ''storage-low'' \<longleftrightarrow> round1 r < 60)"
proof -
  define n where "n = nat \<lfloor>\<bar>r\<bar> * 10 + 1 / 2\<rfloor>"
  have a: "\<bar>round1 r\<bar> = of_nat n / 10" by (rule tenths_of) (simp add: n_def)
  have g85: "js_ge (to_double (of_nat n / 10)) (Fin 85) \<longleftrightarrow> 850 \<le> n"
    using tenths_ge_threshold[of 85 n] by simp
  have g60: "js_ge (to_double (of_nat n / 10)) (Fin 60) \<longleftrightarrow> 600 \<le> n"
    using tenths_ge_threshold[of 60 n] by simp
  have pf: "parseFloat (toFixed1 (Fin r)) =
     (if r < 0 then js_neg (to_double (of_nat n / 10)) else to_double (of_nat n / 10))"
    unfolding n_def by (rule parseFloat_toFixed1)
  show ?thesis
  proof (cases "r < 0")
    case True
    have n85: "\<not> js_ge (js_neg (to_double (of_nat n / 10))) (Fin 85)"
      using neg_not_ge_threshold[of 85 "of_nat n / 10"] by simp
    have n60: "\<not> js_ge (js_neg (to_double (of_nat n / 10))) (Fin 60)"
      using neg_not_ge_threshold[of 60 "of_nat n / 10"] by simp
    have "round1 r \<le> 0" using True by (simp add: round1_def sgn_if)
    then show ?thesis
      using True n85 n60
      by (simp add: colorClass_def pf Let_def)
  next
    case False
    then have "0 \<le> round1 r"
      by (simp add: round1_def sgn_if)
    then have "round1 r = of_nat n / 10" using a by simp
    then show ?thesis
      using False g85 g60
      by (auto simp: colorClass_def pf Let_def)
  qed
qed

lemma display_bar:
  "page (device_prefix device @ ''-storage-bar-fill'') \<Longrightarrow>
     SetWidth (device_prefix device @ ''-storage-bar-fill'') (storage_percent st @ ''%'')
       \<in> set (updateStorageDisplay page device st extraData)
   \<and> SetStorageClass (device_prefix device @ ''-storage-bar-fill'')
         (colorClass (storage_percent st))
       \<in> set (updateStorageDisplay page device st extraData)"
  by (simp add: updateStorageDisplay_def if_present_def Let_def)

lemma display_label:
  "page (device_prefix device @ ''-storage-bar-label'') \<Longrightarrow>
     SetText (device_prefix device @ ''-storage-bar-label'')
       (''Storage: '' @ storage_percent st @ ''%'')
       \<in> set (updateStorageDisplay page device st extraData)"
  by (simp add: updateStorageDisplay_def if_present_def Let_def)

text \<open>
  C2. For kilobyte counts that are integers below \<open>2 ^ 53\<close> (the integers a JavaScript
  number holds exactly) with \<open>0 < total\<close>, the value of \<^verbatim>\<open>(used / total) * 100\<close> is a finite
  number \<open>r\<close>; the percentage shown is \<open>r\<close> rounded to one decimal, written with one
  fraction digit; the colour class is high exactly when the rounded percentage is at least 85,
  medium exactly when it is at least 60 and below 85, and low exactly when it is below 60. The
  bar and its label receive that percentage and that class.
\<close>

theorem storage_percent_rounded_and_classified:
  "0 < total st \<and> total st < 2 ^ 53 \<and> \<bar>used st\<bar> < 2 ^ 53 \<longrightarrow>
     (\<exists>r. js_mul (js_div (num (used st)) (num (total st))) (Fin 100) = Fin r
        \<and> storage_percent st = (if r < 0 then ''-'' else []) @ decimal1 \<bar>round1 r\<bar>
        \<and> (colorClass (storage_percent st) = ''storage-high'' \<longleftrightarrow> 85 \<le> round1 r)
        \<and> (colorClass (storage_percent st) = ''storage-medium'' \<longleftrightarrow>
               60 \<le> round1 r \<and> round1 r < 85)
        \<and> (colorClass (storage_percent st) = ''storage-low'' \<longleftrightarrow> round1 r < 60))
   \<and> (page (device_prefix device @ ''-storage-bar-fill'') \<longrightarrow>
         SetWidth (device_prefix device @ ''-storage-bar-fill'') (storage_percent st @ ''%'')
           \<in> set (updateStorageDisplay page device st extraData)
       \<and> SetStorageClass (device_prefix device @ ''-storage-bar-fill'')
             (colorClass (storage_percent st))
           \<in> set (updateStorageDisplay page device st extraData))
   \<and> (page (device_prefix device @ ''-storage-bar-label'') \<longrightarrow>
         SetText (device_prefix device @ ''-storage-bar-label'')
           (''Storage: '' @ storage_percent st @ ''%'')
           \<in> set (updateStorageDisplay page device st extraData))"
proof (intro impI)
  assume a: "0 < total st \<and> total st < 2 ^ 53 \<and> \<bar>used st\<bar> < 2 ^ 53"
  then obtain r where r: "js_mul (js_div (num (used st)) (num (total st))) (Fin 100) = Fin r"
    using percent_finite[of "total st" "used st"] by auto
  have p: "storage_percent st = toFixed1 (Fin r)" by (simp add: storage_percent_def r)
  have tf: "storage_percent st = (if r < 0 then ''-'' else []) @ decimal1 \<bar>round1 r\<bar>"
    unfolding p by (rule toFixed1_decimal)
  note cc = colorClass_toFixed1[of r, folded p]
  have ex: "\<exists>r. js_mul (js_div (num (used st)) (num (total st))) (Fin 100) = Fin r
        \<and> storage_percent st = (if r < 0 then ''-'' else []) @ decimal1 \<bar>round1 r\<bar>
        \<and> (colorClass (storage_percent st) = ''storage-high'' \<longleftrightarrow> 85 \<le> round1 r)
        \<and> (colorClass (storage_percent st) = ''storage-medium'' \<longleftrightarrow>
               60 \<le> round1 r \<and> round1 r < 85)
        \<and> (colorClass (storage_percent st) = ''storage-low'' \<longleftrightarrow> round1 r < 60)"
    apply (rule exI[of _ r])
    apply (intro conjI)
        apply (rule r)
       apply (rule tf)
      apply (rule cc[THEN conjunct1])
     apply (rule cc[THEN conjunct2, THEN conjunct1])
    apply (rule cc[THEN conjunct2, THEN conjunct2])
    done
  show "(\<exists>r. js_mul (js_div (num (used st)) (num (total st))) (Fin 100) = Fin r
        \<and> storage_percent st = (if r < 0 then ''-'' else []) @ decimal1 \<bar>round1 r\<bar>
        \<and> (colorClass (storage_percent st) = ''storage-high'' \<longleftrightarrow> 85 \<le> round1 r)
        \<and> (colorClass (storage_percent st) = ''storage-medium'' \<longleftrightarrow>
               60 \<le> round1 r \<and> round1 r < 85)
        \<and> (colorClass (storage_percent st) = ''storage-low'' \<longleftrightarrow> round1 r < 60))
   \<and> (page (device_prefix device @ ''-storage-bar-fill'') \<longrightarrow>
         SetWidth (device_prefix device @ ''-storage-bar-fill'') (storage_percent st @ ''%'')
           \<in> set (updateStorageDisplay page device st extraData)
       \<and> SetStorageClass (device_prefix device @ ''-storage-bar-fill'')
             (colorClass (storage_percent st))
           \<in> set (updateStorageDisplay page device st extraData))
   \<and> (page (device_prefix device @ ''-storage-bar-label'') \<longrightarrow>
         SetText (device_prefix device @ ''-storage-bar-label'')
           (''Storage: '' @ storage_percent st @ ''%'')
           \<in> set (updateStorageDisplay page device st extraData))"
    apply (intro conjI impI)
      apply (rule ex)
     apply (erule display_bar[THEN conjunct1])
     apply (erule display_bar[THEN conjunct2])
    apply (erule display_label)
    done
qed

theorem storage_percent_rounded_and_classified_witness:
  "storage_percent \<lparr>used = 20400, total = 24000\<rparr> = ''85.0''
   \<and> colorClass (storage_percent \<lparr>used = 20400, total = 24000\<rparr>) = ''storage-high''
   \<and> storage_percent \<lparr>used = 14400, total = 24000\<rparr> = ''60.0''
   \<and> colorClass (storage_percent \<lparr>used = 14400, total = 24000\<rparr>) = ''storage-medium''"
proof -
  have d: "decimal1 85 = ''85.0''" "decimal1 60 = ''60.0''"
    by (simp_all add: decimal1_def string_of_nat.simps digit_char_values)
  have r1: "round1 85 = 85" "round1 60 = 60" by code_simp+
  have e1: "js_mul (js_div (num 20400) (num 24000)) (Fin 100) = Fin 85" by code_simp
  have e2: "js_mul (js_div (num 14400) (num 24000)) (Fin 100) = Fin 60" by code_simp
  have h1: "0 < total \<lparr>used = 20400, total = 24000\<rparr> \<and> total \<lparr>used = 20400, total = 24000\<rparr> < 2 ^ 53
      \<and> \<bar>used \<lparr>used = 20400, total = 24000\<rparr>\<bar> < 2 ^ 53" by simp
  have h2: "0 < total \<lparr>used = 14400, total = 24000\<rparr> \<and> total \<lparr>used = 14400, total = 24000\<rparr> < 2 ^ 53
      \<and> \<bar>used \<lparr>used = 14400, total = 24000\<rparr>\<bar> < 2 ^ 53" by simp
  from storage_percent_rounded_and_classified
    [of "\<lparr>used = 20400, total = 24000\<rparr>" "\<lambda>i. True" "''opz''" "\<lparr>counts = None, numSamples = None\<rparr>",
     THEN mp, OF h1, THEN conjunct1]
  obtain r where a: "js_mul (js_div (num (used \<lparr>used = 20400, total = 24000\<rparr>))
        (num (total \<lparr>used = 20400, total = 24000\<rparr>))) (Fin 100) = Fin r
      \<and> storage_percent \<lparr>used = 20400, total = 24000\<rparr> =
          (if r < 0 then ''-'' else []) @ decimal1 \<bar>round1 r\<bar>
      \<and> (colorClass (storage_percent \<lparr>used = 20400, total = 24000\<rparr>) = ''storage-high''
           \<longleftrightarrow> 85 \<le> round1 r)
      \<and> (colorClass (storage_percent \<lparr>used = 20400, total = 24000\<rparr>) = ''storage-medium''
           \<longleftrightarrow> 60 \<le> round1 r \<and> round1 r < 85)
      \<and> (colorClass (storage_percent \<lparr>used = 20400, total = 24000\<rparr>) = ''storage-low''
           \<longleftrightarrow> round1 r < 60)"
    by (rule exE)
  from a e1 have ra: "r = 85" by simp
  from storage_percent_rounded_and_classified
    [of "\<lparr>used = 14400, total = 24000\<rparr>" "\<lambda>i. True" "''opz''" "\<lparr>counts = None, numSamples = None\<rparr>",
     THEN mp, OF h2, THEN conjunct1]
  obtain q where b: "js_mul (js_div (num (used \<lparr>used = 14400, total = 24000\<rparr>))
        (num (total \<lparr>used = 14400, total = 24000\<rparr>))) (Fin 100) = Fin q
      \<and> storage_percent \<lparr>used = 14400, total = 24000\<rparr> =
          (if q < 0 then ''-'' else []) @ decimal1 \<bar>round1 q\<bar>
      \<and> (colorClass (storage_percent \<lparr>used = 14400, total = 24000\<rparr>) = ''storage-high''
           \<longleftrightarrow> 85 \<le> round1 q)
      \<and> (colorClass (storage_percent \<lparr>used = 14400, total = 24000\<rparr>) = ''storage-medium''
           \<longleftrightarrow> 60 \<le> round1 q \<and> round1 q < 85)
      \<and> (colorClass (storage_percent \<lparr>used = 14400, total = 24000\<rparr>) = ''storage-low''
           \<longleftrightarrow> round1 q < 60)"
    by (rule exE)
  from b e2 have qb: "q = 60" by simp
  have p1: "storage_percent \<lparr>used = 20400, total = 24000\<rparr> = ''85.0''"
    using a[THEN conjunct2, THEN conjunct1] unfolding ra r1 by (simp add: d)
  have c1: "colorClass (storage_percent \<lparr>used = 20400, total = 24000\<rparr>) = ''storage-high''"
    using a[THEN conjunct2, THEN conjunct2, THEN conjunct1] unfolding ra r1 by simp
  have p2: "storage_percent \<lparr>used = 14400, total = 24000\<rparr> = ''60.0''"
    using b[THEN conjunct2, THEN conjunct1] unfolding qb r1 by (simp add: d)
  have c2: "colorClass (storage_percent \<lparr>used = 14400, total = 24000\<rparr>) = ''storage-medium''"
    using b[THEN conjunct2, THEN conjunct2, THEN conjunct2, THEN conjunct1] unfolding qb r1
    by simp
  show ?thesis
    by (intro conjI) (rule p1 c1 p2 c2)+
qed

text \<open>
  C3, as stated, fails: with \<open>total = 0\<close> and \<open>used = 5\<close> the division is carried out and the
  label reads \<^verbatim>\<open>Storage: Infinity%\<close>.
\<close>

theorem zero_total_counterexample:
  "storage_percent \<lparr>used = 5, total = 0\<rparr> = ''Infinity''
   \<and> SetText ''opz-storage-bar-label'' ''Storage: Infinity%''
       \<in> set (updateStorageDisplay full_page ''opz'' \<lparr>used = 5, total = 0\<rparr>
                \<lparr>counts = None, numSamples = Some 1\<rparr>)"
proof -
  have p: "storage_percent \<lparr>used = 5, total = 0\<rparr> = ''Infinity''"
    by (simp add: storage_percent_def div_zero_pos toFixed1_def)
  have "SetText (device_prefix ''opz'' @ ''-storage-bar-label'')
          (''Storage: '' @ storage_percent \<lparr>used = 5, total = 0\<rparr> @ ''%'')
       \<in> set (updateStorageDisplay full_page ''opz'' \<lparr>used = 5, total = 0\<rparr>
                \<lparr>counts = None, numSamples = Some 1\<rparr>)"
    by (rule display_label) (simp add: full_page_def)
  then show ?thesis by (simp add: p device_prefix_def)
qed

text \<open>
  C3, amended. With \<open>total = 0\<close> nothing guards the division: the percentage shown is
  \<^verbatim>\<open>Infinity\<close> when \<open>used\<close> is positive, \<^verbatim>\<open>-Infinity\<close> when it is negative and \<^verbatim>\<open>NaN\<close>
  when it is zero, and the colour class is high when \<open>used\<close> is positive and low otherwise.
\<close>

theorem zero_total_unguarded:
  "total st = 0 \<longrightarrow>
     storage_percent st =
       (if 0 < used st then ''Infinity'' else if used st < 0 then ''-Infinity'' else ''NaN'')
   \<and> colorClass (storage_percent st) =
       (if 0 < used st then ''storage-high'' else ''storage-low'')"
proof
  assume t: "total st = 0"
  consider "0 < used st" | "used st < 0" | "used st = 0" by linarith
  then show "storage_percent st =
       (if 0 < used st then ''Infinity'' else if used st < 0 then ''-Infinity'' else ''NaN'')
   \<and> colorClass (storage_percent st) =
       (if 0 < used st then ''storage-high'' else ''storage-low'')"
  proof cases
    case 1
    then show ?thesis
      by (simp add: storage_percent_def t div_zero_pos toFixed1_def colorClass_def parseFloat_special)
  next
    case 2
    then show ?thesis
      by (simp add: storage_percent_def t div_zero_neg toFixed1_def colorClass_def parseFloat_special)
  next
    case 3
    then show ?thesis
      by (simp add: storage_percent_def t toFixed1_def colorClass_def parseFloat_special)
  qed
qed

theorem zero_total_unguarded_witness:
  "storage_percent \<lparr>used = 0, total = 0\<rparr> = ''NaN''
   \<and> colorClass (storage_percent \<lparr>used = 0, total = 0\<rparr>) = ''storage-low''"
proof -
  have t: "total \<lparr>used = 0, total = 0\<rparr> = 0" by simp
  note z = zero_total_unguarded [of "\<lparr>used = 0, total = 0\<rparr>", THEN mp, OF t]
  have p: "storage_percent \<lparr>used = 0, total = 0\<rparr> = ''NaN''"
    using z[THEN conjunct1] by simp
  have c: "colorClass (storage_percent \<lparr>used = 0, total = 0\<rparr>) = ''storage-low''"
    using z[THEN conjunct2] by simp
  show ?thesis by (intro conjI) (rule p c)+
qed

subsection \<open>Counting the occupied slots\<close>

lemma render_slots_counts:
  "render_slots page (Some stg) category i slots v = Inr v' \<Longrightarrow>
   opzNumSamples v' = opzNumSamples v + length (filter occupied slots)"
  by (induction slots arbitrary: i v) (auto simp: Let_def)

lemma render_slots_total: "\<exists>v'. render_slots page (Some stg) category i slots v = Inr v'"
  by (induction slots arbitrary: i v) (auto simp: Let_def)

text \<open>
  C1 asks that a slot whose filename is the empty string is not counted. The code labels such
  a slot \<^verbatim>\<open>(empty)\<close> and counts it all the same: the test of the counter accepts every
  string other than \<^verbatim>\<open>(empty)\<close> that does not start with \<^verbatim>\<open>~\<close>, the empty one included.
\<close>

theorem empty_filename_is_counted:
  "opzNumSamples
     (fetchOpzSamples full_page
        (SnapStatus True
           (Some \<lparr>validation_error = None,
                  snap_storage = Some \<lparr>used = 0, total = 24000\<rparr>,
                  categories = [''kick''],
                  sampleData = [[\<lparr>slot_path = None, slot_filename = Some [],
                                  slot_filesize = None\<rparr>]]\<rparr>))
        initial_view) = 1
   \<and> containers
     (fetchOpzSamples full_page
        (SnapStatus True
           (Some \<lparr>validation_error = None,
                  snap_storage = Some \<lparr>used = 0, total = 24000\<rparr>,
                  categories = [''kick''],
                  sampleData = [[\<lparr>slot_path = None, slot_filename = Some [],
                                  slot_filesize = None\<rparr>]]\<rparr>))
        initial_view) ''kick'' = [''Slot 1: (empty)'']"
  by (simp add: fetchOpzSamples_def or_else_def full_page_def occupied_def initial_view_def
        Let_def slot_label_def string_of_nat.simps digit_char_values)

subsection \<open>The order of the folders\<close>

lemma subdir_compare_le:
  "a \<noteq> b \<Longrightarrow> subdir_compare lc a b \<le> 0 \<longleftrightarrow> folder_le lc a b"
  by (auto simp: subdir_compare_def folder_le_def)

lemma folder_le_total: "collation lc \<Longrightarrow> folder_le lc a b \<or> folder_le lc b a"
  unfolding collation_def folder_le_def by blast

lemma folder_le_trans:
  "collation lc \<Longrightarrow> folder_le lc a b \<Longrightarrow> folder_le lc b c \<Longrightarrow> folder_le lc a c"
  unfolding collation_def folder_le_def by blast

lemma set_insert_by: "set (insert_by cmp x ys) = insert x (set ys)"
  by (induction ys) auto

lemma distinct_insert_by: "x \<notin> set ys \<Longrightarrow> distinct ys \<Longrightarrow> distinct (insert_by cmp x ys)"
  by (induction ys) (auto simp: set_insert_by)

lemma sorted_insert_by:
  assumes c: "collation lc" and x: "x \<notin> set ys" and s: "sorted_wrt (folder_le lc) ys"
  shows "sorted_wrt (folder_le lc) (insert_by (subdir_compare lc) x ys)"
  using x s
proof (induction ys)
  case Nil
  then show ?case by simp
next
  case (Cons y ys)
  have ne: "x \<noteq> y" using Cons.prems(1) by simp
  show ?case
  proof (cases "subdir_compare lc x y \<le> 0")
    case True
    then have xy: "folder_le lc x y" using subdir_compare_le[OF ne] by simp
    have "\<forall>z \<in> set ys. folder_le lc x z"
      using Cons.prems(2) xy folder_le_trans[OF c] by auto
    then show ?thesis using True xy Cons.prems(2) by simp
  next
    case False
    then have "\<not> folder_le lc x y" using subdir_compare_le[OF ne] by simp
    then have yx: "folder_le lc y x" using folder_le_total[OF c] by blast
    have "sorted_wrt (folder_le lc) (insert_by (subdir_compare lc) x ys)"
      using Cons by simp
    then show ?thesis using False yx Cons.prems(2) by (auto simp: set_insert_by)
  qed
qed

lemma array_sort_props:
  assumes c: "collation lc" and d: "distinct xs"
  shows "sorted_wrt (folder_le lc) (array_sort (subdir_compare lc) xs)
       \<and> set (array_sort (subdir_compare lc) xs) = set xs
       \<and> distinct (array_sort (subdir_compare lc) xs)"
  using d
proof (induction xs)
  case Nil
  then show ?case by (simp add: array_sort_def)
next
  case (Cons x xs)
  then have ih: "sorted_wrt (folder_le lc) (array_sort (subdir_compare lc) xs)"
    "set (array_sort (subdir_compare lc) xs) = set xs"
    "distinct (array_sort (subdir_compare lc) xs)" by simp_all
  have x: "x \<notin> set (array_sort (subdir_compare lc) xs)" using Cons.prems ih(2) by simp
  have e: "array_sort (subdir_compare lc) (x # xs) =
     insert_by (subdir_compare lc) x (array_sort (subdir_compare lc) xs)"
    by (simp add: array_sort_def)
  show ?case
    unfolding e using sorted_insert_by[OF c x ih(1)] distinct_insert_by[OF x ih(3)] ih(2)
    by (simp add: set_insert_by)
qed

lemma user_last:
  assumes s: "sorted_wrt (folder_le lc) out" and d: "distinct out" and u: "''user'' \<in> set out"
  shows "last out = ''user''"
proof -
  from u obtain pre post where o: "out = pre @ ''user'' # post" by (auto simp: in_set_conv_decomp)
  have "\<forall>z \<in> set post. folder_le lc ''user'' z"
    using s unfolding o by (simp add: sorted_wrt_append)
  then have "\<forall>z \<in> set post. z = ''user''" by (simp add: folder_le_def)
  moreover have "''user'' \<notin> set post" using d unfolding o by simp
  ultimately have "post = []" by (cases post) auto
  then show ?thesis by (simp add: o)
qed

lemma others_sorted:
  assumes s: "sorted_wrt (folder_le lc) out"
  shows "sorted_wrt (\<lambda>a b. lc a b \<le> 0) (filter (\<lambda>n. n \<noteq> ''user'') out)"
proof -
  have "sorted_wrt (folder_le lc) (filter (\<lambda>n. n \<noteq> ''user'') out)"
    using s by (rule sorted_wrt_filter)
  then show ?thesis
    by (rule sorted_wrt_mono_rel[rotated]) (auto simp: folder_le_def)
qed

lemma three_sorted:
  assumes s: "sorted_wrt R l" and d: "distinct l" and e: "set l = {a, z, u}"
    and ne: "a \<noteq> z" "a \<noteq> u" "z \<noteq> u"
    and r: "\<not> R u a" "\<not> R u z" "\<not> R z a"
  shows "l = [a, z, u]"
proof -
  have "length l = card (set l)" using d by (simp add: distinct_card)
  also have "\<dots> = 3" using ne by (simp add: e)
  finally have "length l = 3" .
  then obtain x y w where l: "l = [x, y, w]"
    by (cases l; cases "tl l"; cases "tl (tl l)") auto
  have rel: "R x y" "R x w" "R y w" using s by (simp_all add: l)
  have mem: "x \<in> {a, z, u}" "y \<in> {a, z, u}" "w \<in> {a, z, u}"
    using e by (auto simp: l)
  have dis: "x \<noteq> y" "x \<noteq> w" "y \<noteq> w" using d by (simp_all add: l)
  have "x = a \<and> y = z \<and> w = u"
    using rel mem dis r by auto
  then show ?thesis by (simp add: l)
qed

lemma three_names:
  assumes c: "collation lc" and s: "sorted_wrt (folder_le lc) out" and d: "distinct out"
    and m: "{''alpha'', ''zeta'', ''user''} \<subseteq> set out" and az: "lc ''alpha'' ''zeta'' < 0"
  shows "filter (\<lambda>n. n \<in> {''alpha'', ''zeta'', ''user''}) out = [''alpha'', ''zeta'', ''user'']"
proof (rule three_sorted[where R = "folder_le lc"])
  show "sorted_wrt (folder_le lc) (filter (\<lambda>n. n \<in> {''alpha'', ''zeta'', ''user''}) out)"
    using s by (rule sorted_wrt_filter)
  show "distinct (filter (\<lambda>n. n \<in> {''alpha'', ''zeta'', ''user''}) out)"
    using d by simp
  show "set (filter (\<lambda>n. n \<in> {''alpha'', ''zeta'', ''user''}) out) = {''alpha'', ''zeta'', ''user''}"
    using m by auto
  show "''alpha'' \<noteq> ''zeta''" "''alpha'' \<noteq> ''user''" "''zeta'' \<noteq> ''user''" by simp_all
  show "\<not> folder_le lc ''user'' ''alpha''" "\<not> folder_le lc ''user'' ''zeta''"
    by (simp_all add: folder_le_def)
  have "0 < lc ''zeta'' ''alpha''" using c az unfolding collation_def by blast
  then show "\<not> folder_le lc ''zeta'' ''alpha''" by (simp add: folder_le_def)
qed

lemma rendered_names_sorted:
  "page (''op1-'' @ parentFolder @ ''-subdirectories'') \<Longrightarrow>
   rendered_names (renderOp1Section lc page parentFolder subdirectories) =
     array_sort (subdir_compare lc) (map fst subdirectories)"
  by (simp add: renderOp1Section_def rendered_names_def Let_def render_subdir_def o_def)

lemma codeunit_compare_flip: "codeunit_compare b a = - codeunit_compare a b"
  by (induction a b rule: codeunit_compare.induct) auto

lemma codeunit_compare_trans:
  "codeunit_compare a b \<le> 0 \<Longrightarrow> codeunit_compare b c \<le> 0 \<Longrightarrow> codeunit_compare a c \<le> 0"
proof (induction a arbitrary: b c)
  case Nil
  then show ?case by (cases c) auto
next
  case (Cons x xs)
  obtain y ys where b: "b = y # ys" using Cons.prems(1) by (cases b) auto
  obtain z zs where c: "c = z # zs" using Cons.prems(2) b by (cases c) auto
  show ?case
    using Cons.prems Cons.IH[of ys zs] unfolding b c
    by (auto split: if_splits)
qed

lemma collation_codeunit: "collation codeunit_compare"
  unfolding collation_def
proof (intro conjI allI impI)
  fix a b show "codeunit_compare a b \<le> 0 \<or> codeunit_compare b a \<le> 0"
    using codeunit_compare_flip[of b a] by linarith
next
  fix a b c assume "codeunit_compare a b \<le> 0 \<and> codeunit_compare b c \<le> 0"
  then show "codeunit_compare a c \<le> 0" using codeunit_compare_trans by blast
next
  fix a b assume "codeunit_compare a b < 0"
  then show "0 < codeunit_compare b a" using codeunit_compare_flip[of b a] by linarith
qed

text \<open>
  C6. When the collation is a total preorder whose sign turns with its arguments, the folder
  names of the object are rendered each once, the reserved name \<^verbatim>\<open>user\<close> last and the
  other names in the order of the collation; when the names include \<^verbatim>\<open>user\<close>,
  \<^verbatim>\<open>zeta\<close> and \<^verbatim>\<open>alpha\<close> and the collation puts \<^verbatim>\<open>alpha\<close> before \<^verbatim>\<open>zeta\<close>, these
  three are rendered in the order \<^verbatim>\<open>alpha\<close>, \<^verbatim>\<open>zeta\<close>, \<^verbatim>\<open>user\<close>.
\<close>

theorem folders_sorted_user_last:
  "collation lc \<and> distinct (map fst subdirectories)
   \<and> page (''op1-'' @ parentFolder @ ''-subdirectories'') \<longrightarrow>
     set (rendered_names (renderOp1Section lc page parentFolder subdirectories)) =
       set (map fst subdirectories)
   \<and> distinct (rendered_names (renderOp1Section lc page parentFolder subdirectories))
   \<and> (''user'' \<in> set (map fst subdirectories) \<longrightarrow>
        last (rendered_names (renderOp1Section lc page parentFolder subdirectories)) = ''user'')
   \<and> sorted_wrt (\<lambda>a b. lc a b \<le> 0)
        (filter (\<lambda>n. n \<noteq> ''user'')
           (rendered_names (renderOp1Section lc page parentFolder subdirectories)))
   \<and> ({''alpha'', ''zeta'', ''user''} \<subseteq> set (map fst subdirectories)
        \<and> lc ''alpha'' ''zeta'' < 0 \<longrightarrow>
        filter (\<lambda>n. n \<in> {''alpha'', ''zeta'', ''user''})
          (rendered_names (renderOp1Section lc page parentFolder subdirectories)) =
        [''alpha'', ''zeta'', ''user''])"
proof (intro impI)
  assume a: "collation lc \<and> distinct (map fst subdirectories)
   \<and> page (''op1-'' @ parentFolder @ ''-subdirectories'')"
  define out where "out = rendered_names (renderOp1Section lc page parentFolder subdirectories)"
  have o: "out = array_sort (subdir_compare lc) (map fst subdirectories)"
    unfolding out_def using a by (intro rendered_names_sorted) simp
  from a have c: "collation lc" and d: "distinct (map fst subdirectories)" by simp_all
  from array_sort_props[OF c d]
  have s: "sorted_wrt (folder_le lc) out" and e: "set out = set (map fst subdirectories)"
    and dd: "distinct out" unfolding o by simp_all
  have u: "''user'' \<in> set (map fst subdirectories) \<longrightarrow> last out = ''user''"
    using user_last[OF s dd] e by simp
  have t: "{''alpha'', ''zeta'', ''user''} \<subseteq> set (map fst subdirectories)
        \<and> lc ''alpha'' ''zeta'' < 0 \<longrightarrow>
        filter (\<lambda>n. n \<in> {''alpha'', ''zeta'', ''user''}) out = [''alpha'', ''zeta'', ''user'']"
    using three_names[OF c s dd] e by simp
  show "set out = set (map fst subdirectories)
   \<and> distinct out
   \<and> (''user'' \<in> set (map fst subdirectories) \<longrightarrow> last out = ''user'')
   \<and> sorted_wrt (\<lambda>a b. lc a b \<le> 0) (filter (\<lambda>n. n \<noteq> ''user'') out)
   \<and> ({''alpha'', ''zeta'', ''user''} \<subseteq> set (map fst subdirectories)
        \<and> lc ''alpha'' ''zeta'' < 0 \<longrightarrow>
        filter (\<lambda>n. n \<in> {''alpha'', ''zeta'', ''user''}) out = [''alpha'', ''zeta'', ''user''])"
    by (intro conjI) (rule e dd u others_sorted[OF s] t)+
qed

theorem folders_sorted_user_last_witness:
  "filter (\<lambda>n. n \<in> {''alpha'', ''zeta'', ''user''})
     (rendered_names (renderOp1Section codeunit_compare full_page ''drum''
        [(''user'', []), (''zeta'', []), (''alpha'', [])])) = [''alpha'', ''zeta'', ''user'']
   \<and> last (rendered_names (renderOp1Section codeunit_compare full_page ''drum''
        [(''user'', []), (''zeta'', []), (''alpha'', [])])) = ''user''"
proof -
  have h: "collation codeunit_compare
     \<and> distinct (map fst [(''user'', []), (''zeta'', []), (''alpha'', [] :: op1_file list)])
     \<and> full_page (''op1-'' @ ''drum'' @ ''-subdirectories'')"
    by (simp add: collation_codeunit full_page_def)
  have az: "codeunit_compare ''alpha'' ''zeta'' < 0" by simp
  note t = folders_sorted_user_last
    [of codeunit_compare "[(''user'', []), (''zeta'', []), (''alpha'', [])]" full_page "''drum''",
     THEN mp, OF h]
  have u: "last (rendered_names (renderOp1Section codeunit_compare full_page ''drum''
        [(''user'', []), (''zeta'', []), (''alpha'', [])])) = ''user''"
    using t[THEN conjunct2, THEN conjunct2, THEN conjunct1] by simp
  have f: "filter (\<lambda>n. n \<in> {''alpha'', ''zeta'', ''user''})
     (rendered_names (renderOp1Section codeunit_compare full_page ''drum''
        [(''user'', []), (''zeta'', []), (''alpha'', [])])) = [''alpha'', ''zeta'', ''user'']"
    using t[THEN conjunct2, THEN conjunct2, THEN conjunct2, THEN conjunct2] az by simp
  show ?thesis by (intro conjI) (rule f u)+
qed

lemma rendered_example:
  "rendered_names (renderOp1Section codeunit_compare full_page ''drum''
        [(''user'', []), (''zeta'', []), (''alpha'', [])]) = [''alpha'', ''zeta'', ''user'']"
  by (simp add: rendered_names_sorted full_page_def array_sort_def subdir_compare_def)

subsection \<open>Escaping of names in the folder markup\<close>

lemma escape_char_no_angle:
  "CHR ''<'' \<notin> set (escape_char c)" "CHR ''>'' \<notin> set (escape_char c)"
  by (auto simp: escape_char_def)

lemma escapeHtml_no_angle:
  "CHR ''<'' \<notin> set (escapeHtml t) \<and> CHR ''>'' \<notin> set (escapeHtml t)"
  by (induction t) (auto simp: escapeHtml_def escape_char_no_angle)

lemma escapeHtml_plain:
  "\<forall>c \<in> set t. c \<notin> {CHR ''&'', CHR ''<'', CHR ''>'', CHR 0xA0} \<Longrightarrow> escapeHtml t = t"
  by (induction t) (auto simp: escapeHtml_def escape_char_def)

text \<open>
  C10 asks that every folder name passes through \<^verbatim>\<open>escapeHtml\<close> before it enters the
  markup. The name element does so; the \<^verbatim>\<open>onclick\<close> attributes of the Rename and Delete
  buttons interpolate the name as it is: for the folder \<^verbatim>\<open><b>\<close> of the drum section the
  markup holds \<^verbatim>\<open>drum/<b>\<close>, although \<^verbatim>\<open>escapeHtml\<close> turns the name into \<^verbatim>\<open>&lt;b&gt;\<close>.
\<close>

theorem folder_name_unescaped_in_onclick:
  "escapeHtml ''<b>'' = ''&lt;b&gt;''
   \<and> contains (markup_of (renderOp1Section codeunit_compare full_page ''drum'' [(''<b>'', [])]))
        ''drum/<b>''"
  by code_simp

subsection \<open>Dropping a folder\<close>

text \<open>
  C7, as stated, fails: a file inside a nested directory of the dropped folder is not
  enumerated and is not part of the upload.
\<close>

theorem getFiles_skips_nested_counterexample:
  "''snare.aif'' \<in> set (all_files nested_folder)
   \<and> ''snare.aif'' \<notin> set (getFilesFromDirectory nested_folder)
   \<and> section_drop ''drum'' [Some nested_folder] (Response True (JsonObj None [])) =
       [PreventDefault, ClassRemove ''drag-hover'',
        Fetch (upload_folder_request ''drum'' ''kit'' [''kick.aif'']),
        Call FetchOp1Samples]"
  by (simp add: nested_folder_def section_drop_def)

lemma getFiles_set:
  "set (getFilesFromDirectory (DirectoryEntry folderName entries)) = {f. FileEntry f \<in> set entries}"
  by (auto split: fs_entry.splits)

text \<open>
  C7, amended. When a directory entry is dropped on the section, the files enumerated by
  \<^verbatim>\<open>getFilesFromDirectory\<close> are the entries of the directory itself that are files; when
  there is at least one, exactly these are sent in one bulk upload under the name of the folder,
  no other request is sent, and the view is fetched again whatever the outcome.
\<close>

theorem folder_drop_uploads_direct_files:
  "getFilesFromDirectory (DirectoryEntry folderName entries) = fs \<and> fs \<noteq> [] \<longrightarrow>
     set fs = {f. FileEntry f \<in> set entries}
   \<and> (\<exists>outcome. section_drop parentFolder (Some (DirectoryEntry folderName entries) # rest) result =
          [PreventDefault, ClassRemove ''drag-hover'',
           Fetch (upload_folder_request parentFolder folderName fs)] @ outcome @
          [Call FetchOp1Samples]
        \<and> \<not> list_ex is_request outcome)"
proof (intro impI conjI)
  assume a: "getFilesFromDirectory (DirectoryEntry folderName entries) = fs \<and> fs \<noteq> []"
  then show "set fs = {f. FileEntry f \<in> set entries}" using getFiles_set by blast
  define outcome where "outcome =
     (case result of
                   Rejected msg \<Rightarrow> upload_failed msg
                 | Response ok b \<Rightarrow>
                     (case b of
                        NotJson msg \<Rightarrow> upload_failed msg
                      | JsonObj err errs \<Rightarrow>
                          if \<not> ok then upload_failed (or_else err ''Upload failed'')
                          else if errs \<noteq> []
                          then [Alert (''Some files failed to upload: '' @ join '', '' errs)]
                          else []))"
  have n: "\<not> list_ex is_request outcome"
    by (auto simp: outcome_def upload_failed_def split: fetch_result.splits reply_body.splits)
  have "section_drop parentFolder (Some (DirectoryEntry folderName entries) # rest) result =
          [PreventDefault, ClassRemove ''drag-hover'',
           Fetch (upload_folder_request parentFolder folderName fs)] @ outcome @
          [Call FetchOp1Samples]"
    using a by (simp add: section_drop_def outcome_def Let_def del: getFilesFromDirectory.simps)
  with n show "\<exists>outcome. section_drop parentFolder (Some (DirectoryEntry folderName entries) # rest) result =
          [PreventDefault, ClassRemove ''drag-hover'',
           Fetch (upload_folder_request parentFolder folderName fs)] @ outcome @
          [Call FetchOp1Samples]
        \<and> \<not> list_ex is_request outcome" by blast
qed

theorem folder_drop_uploads_direct_files_witness:
  "set (getFilesFromDirectory nested_folder) = {''kick.aif''}
   \<and> section_drop ''drum'' [Some nested_folder] (Rejected ''offline'') =
       [PreventDefault, ClassRemove ''drag-hover'',
        Fetch (upload_folder_request ''drum'' ''kit'' [''kick.aif'']),
        ConsoleError ''Failed to upload folder:'', Alert ''Failed to upload folder: offline'',
        Call FetchOp1Samples]"
  using folder_drop_uploads_direct_files
    [of "''kit''" "[FileEntry ''kick.aif'', DirectoryEntry ''more'' [FileEntry ''snare.aif'']]"
        "[''kick.aif'']" "''drum''" "[]" "Rejected ''offline''"]
  by (simp add: nested_folder_def section_drop_def upload_failed_def)

subsection \<open>Drops on a slot\<close>

text \<open>
  C5. A drop whose internal move payload names the target slot itself (same category and same
  slot index), or carries no source path, sends no request and starts no refresh: the handler
  only cancels the default action and clears the hover mark.
\<close>

theorem drop_same_slot_noop:
  "text_plain e = MovePayload d_category d_slot d_path \<and>
   (d_path = None \<or> d_path = Some [] \<or> (d_category = category \<and> d_slot = slotIndex))
   \<longrightarrow>
     slot_drop base category slotIndex e move_result = [PreventDefault, ClassRemove ''drag-hover'']
   \<and> \<not> list_ex is_request (slot_drop base category slotIndex e move_result)
   \<and> \<not> list_ex is_refresh (slot_drop base category slotIndex e move_result)"
  by (auto simp: slot_drop_def split: option.splits)

theorem drop_same_slot_noop_witness:
  "slot_drop [] ''kick'' 2 \<lparr>files = [], text_plain = MovePayload ''kick'' 2 (Some ''kick/03/a.aif'')\<rparr>
     (Response True (NotJson [])) = [PreventDefault, ClassRemove ''drag-hover'']"
  using drop_same_slot_noop
    [of "\<lparr>files = [], text_plain = MovePayload ''kick'' 2 (Some ''kick/03/a.aif'')\<rparr>"
        "''kick''" 2 "Some ''kick/03/a.aif''" "''kick''" 2 "[]" "Response True (NotJson [])"]
  by simp

text \<open>
  C4, as stated, fails: when the move request is answered with a status that is not ok, the
  request has been sent and no refresh follows.
\<close>

theorem drop_move_failed_counterexample:
  "list_ex is_request
     (slot_drop [] ''snare'' 1
        \<lparr>files = [], text_plain = MovePayload ''kick'' 0 (Some ''kick/01/a.aif'')\<rparr>
        (Response False (NotJson [])))
   \<and> \<not> list_ex is_refresh
     (slot_drop [] ''snare'' 1
        \<lparr>files = [], text_plain = MovePayload ''kick'' 0 (Some ''kick/01/a.aif'')\<rparr>
        (Response False (NotJson [])))"
  by (simp add: slot_drop_def)

text \<open>
  C4, amended. For a drop without native files whose internal move payload has a non-empty
  source path and names another slot than the target, the move request is sent; the refresh
  (\<^verbatim>\<open>fetchOpzSamples\<close>) follows exactly when the request succeeded, and otherwise the
  error is logged and an alert is shown.
\<close>

theorem drop_move_then_refresh_on_success:
  "files e = [] \<and> text_plain e = MovePayload d_category d_slot (Some fromPath) \<and>
   fromPath \<noteq> [] \<and> \<not> (d_category = category \<and> d_slot = slotIndex)
   \<longrightarrow>
     slot_drop base category slotIndex e move_result =
       [PreventDefault, ClassRemove ''drag-hover'',
        Fetch (move_request base fromPath category slotIndex)] @
       (if succeeded move_result then [Call FetchOpzSamples]
        else [ConsoleError ''Failed to move sample:'', Alert ''Could not move sample.''])"
  by (auto simp: slot_drop_def succeeded_def split: fetch_result.splits bool.splits)

theorem drop_move_then_refresh_on_success_witness:
  "slot_drop [] ''snare'' 1
     \<lparr>files = [], text_plain = MovePayload ''kick'' 0 (Some ''kick/01/a.aif'')\<rparr>
     (Response True (NotJson [])) =
   [PreventDefault, ClassRemove ''drag-hover'',
    Fetch (move_request [] ''kick/01/a.aif'' ''snare'' 1), Call FetchOpzSamples]"
  using drop_move_then_refresh_on_success
    [of "\<lparr>files = [], text_plain = MovePayload ''kick'' 0 (Some ''kick/01/a.aif'')\<rparr>"
        "''kick''" 0 "''kick/01/a.aif''" "''snare''" 1 "[]" "Response True (NotJson [])"]
  by (simp add: succeeded_def)

subsection \<open>Deleting a sample\<close>

text \<open>
  C8. \<^verbatim>\<open>deleteSample\<close> opens the confirmation dialog before anything else. When the user
  cancels, no request is sent and nothing touches the DOM. When the user confirms and the
  request succeeds, the supplied refresh callback is called. When the user confirms and the
  request fails, the error is logged and shown in an alert, and no refresh happens.
\<close>

theorem deleteSample_confirms_first:
  "(\<exists>rest. deleteSample device path cb confirmed result =
       Confirm (''Delete '' @ [CHR 0x22] @ last_segment path @ [CHR 0x22] @ ''?'') # rest)
   \<and> (\<not> confirmed \<longrightarrow>
        \<not> list_ex is_request (deleteSample device path cb confirmed result)
      \<and> \<not> list_ex touches_dom (deleteSample device path cb confirmed result))
   \<and> (confirmed \<and> succeeded result \<longrightarrow>
        deleteSample device path (Some f) confirmed result =
          [Confirm (''Delete '' @ [CHR 0x22] @ last_segment path @ [CHR 0x22] @ ''?''),
           Fetch (delete_request device path), Call f])
   \<and> (confirmed \<and> \<not> succeeded result \<longrightarrow>
        (\<exists>msg. deleteSample device path cb confirmed result =
          [Confirm (''Delete '' @ [CHR 0x22] @ last_segment path @ [CHR 0x22] @ ''?''),
           Fetch (delete_request device path),
           ConsoleError ''Failed to delete sample:'', Alert (''Failed to delete file: '' @ msg)])
      \<and> \<not> list_ex is_refresh (deleteSample device path cb confirmed result))"
  by (auto simp: deleteSample_def succeeded_def delete_failed_def
           split: fetch_result.splits reply_body.splits option.splits)

theorem deleteSample_confirms_first_witness:
  "deleteSample ''op1'' ''drum/kit/a.aif'' (Some FetchOp1Samples) True
     (Response True (JsonObj None [])) =
     [Confirm (''Delete '' @ [CHR 0x22] @ ''a.aif'' @ [CHR 0x22] @ ''?''),
      Fetch (delete_request ''op1'' ''drum/kit/a.aif''), Call FetchOp1Samples]
   \<and> \<not> list_ex is_request
       (deleteSample ''op1'' ''drum/kit/a.aif'' (Some FetchOp1Samples) False
          (Response True (JsonObj None [])))
   \<and> \<not> list_ex is_refresh
       (deleteSample ''op1'' ''drum/kit/a.aif'' (Some FetchOp1Samples) True
          (Response False (JsonObj (Some ''busy'') [])))"
  using deleteSample_confirms_first
    [of "''op1''" "''drum/kit/a.aif''" "Some FetchOp1Samples" True
        "Response True (JsonObj None [])" FetchOp1Samples]
    deleteSample_confirms_first
    [of "''op1''" "''drum/kit/a.aif''" "Some FetchOp1Samples" False
        "Response True (JsonObj None [])" FetchOp1Samples]
    deleteSample_confirms_first
    [of "''op1''" "''drum/kit/a.aif''" "Some FetchOp1Samples" True
        "Response False (JsonObj (Some ''busy'') [])" FetchOp1Samples]
  by (simp add: succeeded_def last_segment_def)

subsection \<open>Polling for the mount path\<close>

lemma pollLoop_empty:
  "\<forall>j. i \<le> j \<and> j < retries \<longrightarrow> empty_value (reply (env j)) \<Longrightarrow>
   pollLoop load env retries delay i =
     concat (replicate (retries - i) [Fetch mount_query, Sleep delay]) @
     [ConsoleWarn ''Mount path not found after polling.'']"
proof (induction load env retries delay i rule: pollLoop.induct)
  case (1 load env retries delay i)
  show ?case
  proof (cases "i < retries")
    case False
    then show ?thesis by (subst pollLoop.simps) simp
  next
    case True
    with 1(4) have e: "empty_value (reply (env i))" by simp
    then obtain v where v: "reply (env i) = ConfigValue v" "\<not> truthy (ConfigValue v)"
      by (auto simp: empty_value_def truthy_def)
    have rest: "\<forall>j. Suc i \<le> j \<and> j < retries \<longrightarrow> empty_value (reply (env j))"
      using 1(4) by simp
    have "pollLoop load env retries delay (Suc i) =
       concat (replicate (retries - Suc i) [Fetch mount_query, Sleep delay]) @
       [ConsoleWarn ''Mount path not found after polling.'']"
      using 1(3)[OF True v(1) v(2) rest] .
    moreover have "retries - i = Suc (retries - Suc i)" using True by simp
    ultimately show ?thesis
      using True v by (subst pollLoop.simps) simp
  qed
qed

lemma pollLoop_miss:
  "i < retries \<Longrightarrow> empty_value (reply (env i)) \<Longrightarrow>
   pollLoop load env retries delay i =
     Fetch mount_query # Sleep delay # pollLoop load env retries delay (Suc i)"
  by (subst pollLoop.simps) (auto simp: empty_value_def truthy_def)

lemma pollLoop_hit:
  "i < retries \<Longrightarrow> truthy (reply (env i)) \<Longrightarrow>
   pollLoop load env retries delay i =
     Fetch mount_query # Call load #
     (if load_throws (env i)
      then ConsoleError ''Failed to check mount path:'' # Sleep delay #
           pollLoop load env retries delay (Suc i)
      else [])"
  by (subst pollLoop.simps) (auto simp: truthy_def split: config_reply.splits)

text \<open>
  C9, as stated, fails for the loop of \<^verbatim>\<open>configeditor.js\<close>: with an empty value on the
  first three attempts and a value from the fourth on, a load that throws on the fourth attempt
  is caught by the loop, which goes on and starts the load a second time on the fifth attempt.
\<close>

theorem pollForMount_load_throws_counterexample:
  "pollForMount LoadAllConfigs flaky_load_env =
     [Fetch mount_query, Sleep 2000, Fetch mount_query, Sleep 2000,
      Fetch mount_query, Sleep 2000, Fetch mount_query, Call LoadAllConfigs,
      ConsoleError ''Failed to check mount path:'', Sleep 2000,
      Fetch mount_query, Call LoadAllConfigs]"
proof -
  have e: "empty_value (reply (flaky_load_env 0))" "empty_value (reply (flaky_load_env (Suc 0)))"
    "empty_value (reply (flaky_load_env (Suc (Suc 0))))"
    by (simp_all add: flaky_load_env_def empty_value_def)
  have h: "truthy (reply (flaky_load_env (Suc (Suc (Suc 0)))))"
    "load_throws (flaky_load_env (Suc (Suc (Suc 0))))"
    "truthy (reply (flaky_load_env (Suc (Suc (Suc (Suc 0))))))"
    "\<not> load_throws (flaky_load_env (Suc (Suc (Suc (Suc 0)))))"
    by (simp_all add: flaky_load_env_def truthy_def)
  show ?thesis
    by (simp add: pollForMount_def pollLoop_miss pollLoop_hit e h)
qed

text \<open>
  C9, amended. With the defaults (60 attempts, 2000 ms), when the value is empty on the first
  three attempts and non-empty on the fourth, and the load started by the fourth attempt does
  not throw (\<^verbatim>\<open>fetchOpzSamples\<close> never does), exactly one load is started, after the third
  delay, and polling stops there. When all 60 attempts see an empty value, the warning is
  logged last and no load is started.
\<close>

theorem pollForMount_fourth_attempt:
  "(  (\<forall>i<3. empty_value (reply (env i))) \<and> truthy (reply (env 3)) \<and> \<not> load_throws (env 3)
     \<longrightarrow> pollForMount load env =
          [Fetch mount_query, Sleep 2000, Fetch mount_query, Sleep 2000,
           Fetch mount_query, Sleep 2000, Fetch mount_query, Call load])
   \<and> ((\<forall>i<60. empty_value (reply (env i)))
     \<longrightarrow> last (pollForMount load env) = ConsoleWarn ''Mount path not found after polling.''
       \<and> \<not> list_ex is_refresh (pollForMount load env))"
proof (intro conjI impI)
  assume a: "(\<forall>i<3. empty_value (reply (env i))) \<and> truthy (reply (env 3)) \<and> \<not> load_throws (env 3)"
  have e: "empty_value (reply (env 0))" "empty_value (reply (env (Suc 0)))"
    "empty_value (reply (env (Suc (Suc 0))))"
    using a by (simp_all add: numeral_3_eq_3)
  have h: "truthy (reply (env (Suc (Suc (Suc 0)))))" "\<not> load_throws (env (Suc (Suc (Suc 0))))"
    using a by (simp_all add: numeral_3_eq_3)
  have "pollLoop load env 60 2000 0 =
          [Fetch mount_query, Sleep 2000, Fetch mount_query, Sleep 2000,
           Fetch mount_query, Sleep 2000, Fetch mount_query, Call load]"
    by (simp add: pollLoop_miss pollLoop_hit e h)
  then show "pollForMount load env =
          [Fetch mount_query, Sleep 2000, Fetch mount_query, Sleep 2000,
           Fetch mount_query, Sleep 2000, Fetch mount_query, Call load]"
    by (simp add: pollForMount_def)
next
  assume a: "\<forall>i<60. empty_value (reply (env i))"
  then have "\<forall>j. 0 \<le> j \<and> j < 60 \<longrightarrow> empty_value (reply (env j))" by simp
  from pollLoop_empty[OF this]
  have t: "pollForMount load env =
     concat (replicate 60 [Fetch mount_query, Sleep 2000]) @
     [ConsoleWarn ''Mount path not found after polling.'']"
    by (simp add: pollForMount_def)
  show "last (pollForMount load env) = ConsoleWarn ''Mount path not found after polling.''"
    by (simp add: t)
  have "\<forall>a \<in> set (pollForMount load env). \<not> is_refresh a"
    by (auto simp: t)
  then show "\<not> list_ex is_refresh (pollForMount load env)"
    by (simp add: list_ex_iff)
qed

theorem pollForMount_fourth_attempt_witness:
  "pollForMount FetchOpzSamples steady_env =
     [Fetch mount_query, Sleep 2000, Fetch mount_query, Sleep 2000,
      Fetch mount_query, Sleep 2000, Fetch mount_query, Call FetchOpzSamples]
   \<and> last (pollForMount FetchOpzSamples silent_env)
       = ConsoleWarn ''Mount path not found after polling.''"
  using pollForMount_fourth_attempt [of steady_env FetchOpzSamples]
    pollForMount_fourth_attempt [of silent_env FetchOpzSamples]
  by (simp add: steady_env_def silent_env_def empty_value_def truthy_def)

end
